theory Spec2Isabelle
  imports Complex_Main
begin

section \<open>JavaScript strings\<close>

text \<open>
  A JavaScript string is modelled as a \<^typ>\<open>string\<close>: one \<^typ>\<open>char\<close> per UTF-16 code unit,
  for the code units 0 to 255 (Latin-1).  \<open>length\<close> is then the \<open>.length\<close> of the source.

  \<open>is_ws\<close> is the class \<open>\s\<close> of a regular expression on these code units: TAB, LF, VT, FF,
  CR, SPACE and NO-BREAK SPACE.  \<open>String.prototype.trim\<close> strips the same characters.
\<close>

definition is_ws :: "char \<Rightarrow> bool" where
  "is_ws c = (c \<in> {CHR 0x09, CHR 0x0A, CHR 0x0B, CHR 0x0C, CHR 0x0D, CHR 0x20, CHR 0xA0})"

text \<open>
  \<open>toLowerCase\<close> on Latin-1: \<open>A\<close> to \<open>Z\<close> (65 to 90) and the accented capitals 192 to 222
  without the multiplication sign 215 move up by 32; every other code unit stays.
\<close>

definition lower_char :: "char \<Rightarrow> char" where
  "lower_char c =
     (let n = (of_char c :: nat)
      in if (65 \<le> n \<and> n \<le> 90) \<or> (192 \<le> n \<and> n \<le> 222 \<and> n \<noteq> 215)
         then char_of (n + 32) else c)"

definition toLowerCase :: "string \<Rightarrow> string" where
  "toLowerCase s = map lower_char s"

definition trim :: "string \<Rightarrow> string" where
  "trim s = rev (dropWhile is_ws (rev (dropWhile is_ws s)))"

text \<open>
  \<open>s.split(/\s+/)\<close>: the piece before the first run of white space, then the split of what
  follows the run.  A string without white space (the empty string too) is one piece, so the
  result is never empty; leading or trailing white space gives an empty first or last piece.
\<close>

function js_split_ws :: "string \<Rightarrow> string list" where
  "js_split_ws s =
     (let w = takeWhile (\<lambda>c. \<not> is_ws c) s; r = dropWhile (\<lambda>c. \<not> is_ws c) s
      in if r = [] then [w] else w # js_split_ws (dropWhile is_ws r))"
  by pat_completeness auto
termination
proof (relation "measure length")
  show "wf (measure length)" by simp
next
  fix s :: string and w r :: string
  assume r: "r = dropWhile (\<lambda>c. \<not> is_ws c) s" and ne: "r \<noteq> []"
  from ne obtain c cs where rc: "r = c # cs" by (cases r) auto
  have "is_ws c" using r rc by (metis hd_dropWhile list.sel(1) ne)
  then have "length (dropWhile is_ws r) \<le> length cs" using rc by (simp add: length_dropWhile_le)
  moreover have "length r \<le> length s" using r by (simp add: length_dropWhile_le)
  ultimately show "(dropWhile is_ws r, s) \<in> measure length" using rc by simp
qed

declare js_split_ws.simps [simp del]

text \<open>\<open>words.join(" ")\<close>\<close>

fun join_sp :: "string list \<Rightarrow> string" where
  "join_sp [] = []"
| "join_sp [w] = w"
| "join_sp (w # v # ws) = w @ '' '' @ join_sp (v # ws)"


section \<open>Fusion transcription\<close>

text \<open>
  The type \<open>STT_PROVIDER_ID\<close> of the source is \<open>"openai" | "groq"\<close>; \<open>gemini\<close> is the id the
  source names as unsupported for speech-to-text and the one that takes the \<open>|| 0.7\<close> default.
\<close>

datatype STT_PROVIDER_ID = openai | groq | gemini

datatype FusionStrategy =
  best_confidence | majority_vote | weighted_average | consensus | primary_fallback

record TranscriptionResult =
  provider :: STT_PROVIDER_ID
  transcript :: string
  confidence :: real
  processingTime :: int
  success :: bool
  error :: "string option"

text \<open>
  \<open>estimateConfidence\<close>.  Numbers are reals; the last line only selects one of its three
  arguments, so the bounds do not depend on rounding.
\<close>

definition baseConfidence :: "STT_PROVIDER_ID \<Rightarrow> real" where
  "baseConfidence p = (case p of openai \<Rightarrow> 0.9 | groq \<Rightarrow> 0.85 | gemini \<Rightarrow> 0.7)"

definition estimateConfidence :: "string \<Rightarrow> STT_PROVIDER_ID \<Rightarrow> int \<Rightarrow> real" where
  "estimateConfidence t p ms =
     (let c0 = baseConfidence p;
          c1 = (if length t > 50 then c0 + 0.05 else c0);
          c2 = (if length t < 5 then c1 - 0.2 else c1);
          c3 = (if ms < 1000 then c2 - 0.1 else if ms > 10000 then c2 - 0.05 else c2);
          wordCount = length (js_split_ws t);
          avgWordLength = real (length t) / real wordCount;
          c4 = (if avgWordLength > 15 then c3 - 0.15 else c3)
      in max 0.1 (min 0.99 c4))"


text \<open>
  A \<open>Map<string, number>\<close> keeps its keys in insertion order: an association list.
  \<open>tally k m\<close> is \<open>m.set(k, (m.get(k) || 0) + 1)\<close>: a key already present keeps its place.
\<close>

fun tally :: "string \<Rightarrow> (string \<times> nat) list \<Rightarrow> (string \<times> nat) list" where
  "tally k [] = [(k, 1)]"
| "tally k ((k', n) # m) = (if k' = k then (k', n + 1) # m else (k', n) # tally k m)"

text \<open>
  The callback of the two \<open>reduce\<close> calls over map entries,
  \<open>(best, current) => current[1] > best[1] ? current : best\<close>.
\<close>

definition pick :: "string \<times> nat \<Rightarrow> string \<times> nat \<Rightarrow> string \<times> nat" where
  "pick best current = (if snd current > snd best then current else best)"

text \<open>The entries of \<open>wordCounts\<close> after the \<open>forEach\<close> over the word lists, at position \<open>i\<close>.\<close>

definition wordCounts :: "nat \<Rightarrow> string list list \<Rightarrow> (string \<times> nat) list" where
  "wordCounts i wordLists =
     foldl (\<lambda>m wordList. if i < length wordList then tally (wordList ! i) m else m) [] wordLists"

definition wordList_of :: "string \<Rightarrow> string list" where
  "wordList_of t = filter (\<lambda>word. length word > 0) (js_split_ws (toLowerCase t))"

definition wordLists_of :: "TranscriptionResult list \<Rightarrow> string list list" where
  "wordLists_of results = map (\<lambda>r. wordList_of (transcript r)) results"

text \<open>\<open>Math.max(...lengths)\<close> only bounds the loop, so its \<open>-Infinity\<close> start is 0 here.\<close>

definition maxLength_of :: "string list list \<Rightarrow> nat" where
  "maxLength_of wordLists = fold max (map length wordLists) 0"

text \<open>
  The loop over the positions.  The \<open>reduce\<close> without initial value runs under
  \<open>wordCounts.size > 0\<close>: on the entries \<open>e # es\<close> it is \<open>foldl pick e es\<close>.
\<close>

definition finalWords_of :: "string list list \<Rightarrow> string list" where
  "finalWords_of wordLists =
     concat (map (\<lambda>i.
         case wordCounts i wordLists of
           [] \<Rightarrow> []
         | e # es \<Rightarrow> [fst (foldl pick e es)]) [0..<maxLength_of wordLists])"

definition combineMajorityVote :: "TranscriptionResult list \<Rightarrow> string" where
  "combineMajorityVote results =
     (if length results = 0 then []
      else if length results = 1 then transcript (results ! 0)
      else join_sp (finalWords_of (wordLists_of results)))"

text \<open>
  The notions of the specification.  The words of a text are its maximal runs of characters
  that are not white space, in order: \<open>scan_words cur s\<close> reads \<open>s\<close> character by character,
  \<open>cur\<close> being the word in progress.  \<open>lowercase_words\<close> are the words of the lower-cased
  transcript.  \<open>column i\<close> lists the words at position \<open>i\<close> of the providers that have a word
  there, and \<open>votes i w\<close> counts the providers whose word at position \<open>i\<close> is \<open>w\<close>.
\<close>

fun scan_words :: "string \<Rightarrow> string \<Rightarrow> string list" where
  "scan_words cur [] = (if cur = [] then [] else [cur])"
| "scan_words cur (c # cs) =
     (if is_ws c then (if cur = [] then scan_words [] cs else cur # scan_words [] cs)
      else scan_words (cur @ [c]) cs)"

definition lowercase_words :: "string \<Rightarrow> string list" where
  "lowercase_words t = scan_words [] (toLowerCase t)"

definition lowercase_word_lists :: "TranscriptionResult list \<Rightarrow> string list list" where
  "lowercase_word_lists results = map (\<lambda>r. lowercase_words (transcript r)) results"

definition column :: "nat \<Rightarrow> string list list \<Rightarrow> string list" where
  "column i wordLists = map (\<lambda>wordList. wordList ! i) (filter (\<lambda>wordList. i < length wordList) wordLists)"

definition votes :: "nat \<Rightarrow> string list list \<Rightarrow> string \<Rightarrow> nat" where
  "votes i wordLists w = count_list (column i wordLists) w"

text \<open>
  \<open>tallied m xs\<close>: the entries \<open>m\<close> have distinct keys, and hold each word of \<open>xs\<close> with the
  number of its occurrences in \<open>xs\<close>, and nothing else.
\<close>

definition tallied :: "(string \<times> nat) list \<Rightarrow> string list \<Rightarrow> bool" where
  "tallied m xs \<longleftrightarrow>
     distinct (map fst m) \<and>
     (\<forall>w. map_of m w = (if w \<in> set xs then Some (count_list xs w) else None))"

text \<open>
  The exceptions of the program: the \<open>Error\<close> thrown by \<open>fusionTranscribe\<close> with the two
  numbers of its message, the \<open>TypeError\<close> of \<open>reduce\<close> on an empty array without initial
  value, and the \<open>SyntaxError\<close> of \<open>new RegExp\<close> with the source it rejects.
\<close>

datatype error = Fusion_failed nat int | Reduce_of_empty_array | Invalid_regular_expression string

fun reduce :: "('a \<Rightarrow> 'a \<Rightarrow> 'a) \<Rightarrow> 'a list \<Rightarrow> error + 'a" where
  "reduce f [] = Inl Reduce_of_empty_array"
| "reduce f (x # xs) = Inr (foldl f x xs)"

definition better :: "TranscriptionResult \<Rightarrow> TranscriptionResult \<Rightarrow> TranscriptionResult" where
  "better best current = (if confidence current > confidence best then current else best)"

definition best_transcript :: "TranscriptionResult list \<Rightarrow> error + string" where
  "best_transcript results =
     (case reduce better results of Inl e \<Rightarrow> Inl e | Inr r \<Rightarrow> Inr (transcript r))"

text \<open>
  \<open>providerWeights[result.provider] || 1.0\<close>: a missing weight and the weight 0 give 1.

  The numbers of the program are doubles and every sum and product is rounded; here they
  are reals and exact.  Two confidences or total weights that are equal as reals can differ
  as doubles in the last place (\<open>3 * 0.1\<close> is above \<open>1 * 0.3\<close> as doubles), so where
  \<open>better\<close> or \<open>heavier\<close> meet such a pair the program may keep the other of the two.  The
  statements below do not rest on these comparisons.
\<close>

definition providerWeight :: "(STT_PROVIDER_ID \<Rightarrow> real option) \<Rightarrow> STT_PROVIDER_ID \<Rightarrow> real" where
  "providerWeight ws p = (case ws p of None \<Rightarrow> 1 | Some w \<Rightarrow> if w = 0 then 1 else w)"

definition heavier ::
  "TranscriptionResult \<times> real \<Rightarrow> TranscriptionResult \<times> real \<Rightarrow> TranscriptionResult \<times> real" where
  "heavier best current = (if snd current > snd best then current else best)"

definition combineWeightedAverage ::
  "TranscriptionResult list \<Rightarrow> (STT_PROVIDER_ID \<Rightarrow> real option) \<Rightarrow> error + string" where
  "combineWeightedAverage results ws =
     (if length results = 0 then Inr []
      else if length results = 1 then Inr (transcript (results ! 0))
      else
        let weightedResults =
              map (\<lambda>r. (r, providerWeight ws (provider r) * confidence r)) results
        in case reduce heavier weightedResults of
             Inl e \<Rightarrow> Inl e
           | Inr b \<Rightarrow> Inr (transcript (fst b)))"

definition combineConsensus :: "TranscriptionResult list \<Rightarrow> real \<Rightarrow> error + string" where
  "combineConsensus results threshold =
     (if length results = 0 then Inr []
      else if length results = 1 then Inr (transcript (results ! 0))
      else
        let highConfidenceResults = filter (\<lambda>r. confidence r \<ge> threshold) results
        in if length highConfidenceResults = 0 then best_transcript results
           else
             let transcripts = map (\<lambda>r. trim (toLowerCase (transcript r))) highConfidenceResults;
                 transcriptCounts = foldl (\<lambda>m t. tally t m) [] transcripts
             in case reduce pick transcriptCounts of
                  Inl e \<Rightarrow> Inl e
                | Inr b \<Rightarrow> Inr (fst b))"

record FusionConfig =
  enabled :: bool
  strategy :: FusionStrategy
  providers :: "STT_PROVIDER_ID list"
  primaryProvider :: "STT_PROVIDER_ID option"
  timeoutMs :: int
  minProvidersRequired :: int
  confidenceThreshold :: real
  enableParallel :: bool
  providerWeights :: "STT_PROVIDER_ID \<Rightarrow> real option"

definition applyFusionStrategy ::
  "TranscriptionResult list \<Rightarrow> FusionStrategy \<Rightarrow> FusionConfig \<Rightarrow> error + string" where
  "applyFusionStrategy results strat config =
     (case strat of
        best_confidence \<Rightarrow> best_transcript results
      | primary_fallback \<Rightarrow>
          (let primaryResult = find (\<lambda>r. Some (provider r) = primaryProvider config) results;
               fallbackResults = filter (\<lambda>r. Some (provider r) \<noteq> primaryProvider config) results
           in case primaryResult of
                None \<Rightarrow>
                  if length fallbackResults = 0 then Inr [] else best_transcript fallbackResults
              | Some p \<Rightarrow>
                  if confidence p \<ge> confidenceThreshold config then Inr (transcript p)
                  else if length fallbackResults = 0 then Inr (transcript p)
                  else best_transcript fallbackResults)
      | majority_vote \<Rightarrow> Inr (combineMajorityVote results)
      | weighted_average \<Rightarrow> combineWeightedAverage results (providerWeights config)
      | consensus \<Rightarrow> combineConsensus results (confidenceThreshold config))"

definition mean_confidence :: "TranscriptionResult list \<Rightarrow> real" where
  "mean_confidence results =
     foldl (\<lambda>sum r. sum + confidence r) 0 results / real (length results)"

definition calculateOverallConfidence :: "TranscriptionResult list \<Rightarrow> FusionStrategy \<Rightarrow> real" where
  "calculateOverallConfidence results strat =
     (if length results = 0 then 0
      else case strat of
        best_confidence \<Rightarrow>
          (case map confidence results of [] \<Rightarrow> 0 | c # cs \<Rightarrow> foldl max c cs)
      | primary_fallback \<Rightarrow> mean_confidence results
      | consensus \<Rightarrow> mean_confidence results
      | majority_vote \<Rightarrow> min 0.95 (real (length results) * 0.2 + 0.3)
      | weighted_average \<Rightarrow> mean_confidence results)"

text \<open>
  The world outside the module.  \<open>fetch p\<close> is what the endpoint of provider \<open>p\<close> answers: a
  transcript, or the message of the error raised for a response that is not ok.
  \<open>timer_first p\<close> says that the timeout timer settled the \<open>Promise.race\<close> before the answer,
  \<open>elapsed p\<close> is the \<open>Date.now() - startTime\<close> measured for that call, \<open>total_elapsed\<close> the one
  measured by \<open>fusionTranscribe\<close>.  An empty API key is a missing one.
\<close>

datatype http = Http_ok string | Http_error string

record ProviderEnv =
  groqApiKey :: string
  openaiApiKey :: string
  fetch :: "STT_PROVIDER_ID \<Rightarrow> http"
  timer_first :: "STT_PROVIDER_ID \<Rightarrow> bool"
  elapsed :: "STT_PROVIDER_ID \<Rightarrow> int"
  total_elapsed :: int

text \<open>
  \<open>transcribeWithProvider\<close>: \<open>Inl\<close> is the message of the error thrown.  The first two errors
  are raised before any request is made.
\<close>

definition thrown_before_fetch :: "ProviderEnv \<Rightarrow> STT_PROVIDER_ID \<Rightarrow> string option" where
  "thrown_before_fetch env p =
     (case p of
        groq \<Rightarrow> if groqApiKey env = [] then Some ''API key not configured for groq'' else None
      | openai \<Rightarrow> if openaiApiKey env = [] then Some ''API key not configured for openai'' else None
      | gemini \<Rightarrow> Some ''Unsupported provider: gemini'')"

definition transcribeWithProvider :: "ProviderEnv \<Rightarrow> STT_PROVIDER_ID \<Rightarrow> string + string" where
  "transcribeWithProvider env p =
     (case thrown_before_fetch env p of
        Some msg \<Rightarrow> Inl msg
      | None \<Rightarrow> (case fetch env p of Http_ok text \<Rightarrow> Inr text | Http_error msg \<Rightarrow> Inl msg))"

text \<open>
  \<open>processProvider\<close>: the race with the timeout, then the \<open>try\<close> and the \<open>catch\<close>.  An error raised
  before the request rejects at once, so the timer can win only against a request.
\<close>

definition processProvider :: "ProviderEnv \<Rightarrow> STT_PROVIDER_ID \<Rightarrow> TranscriptionResult" where
  "processProvider env p =
     (let raced = (if thrown_before_fetch env p = None \<and> timer_first env p
                   then Inl ''Timeout'' else transcribeWithProvider env p)
      in case raced of
           Inr text \<Rightarrow>
             \<lparr>provider = p, transcript = text,
              confidence = estimateConfidence text p (elapsed env p),
              processingTime = elapsed env p, success = True, error = None\<rparr>
         | Inl msg \<Rightarrow>
             \<lparr>provider = p, transcript = [], confidence = 0,
              processingTime = elapsed env p, success = False, error = Some msg\<rparr>)"

text \<open>Both ways of running the providers give the results in the order of the providers.\<close>

definition processProvidersParallel ::
  "ProviderEnv \<Rightarrow> STT_PROVIDER_ID list \<Rightarrow> TranscriptionResult list" where
  "processProvidersParallel env ps = map (processProvider env) ps"

definition processProvidersSequential ::
  "ProviderEnv \<Rightarrow> STT_PROVIDER_ID list \<Rightarrow> TranscriptionResult list" where
  "processProvidersSequential env ps = foldl (\<lambda>results p. results @ [processProvider env p]) [] ps"

record FusionResult =
  finalTranscript :: string
  overall_confidence :: real
  strategy_used :: FusionStrategy
  results :: "TranscriptionResult list"
  total_processingTime :: int
  providersUsed :: "STT_PROVIDER_ID list"

definition provider_results :: "ProviderEnv \<Rightarrow> FusionConfig \<Rightarrow> TranscriptionResult list" where
  "provider_results env config =
     (if enableParallel config then processProvidersParallel env (providers config)
      else processProvidersSequential env (providers config))"

definition fusionTranscribe :: "ProviderEnv \<Rightarrow> FusionConfig \<Rightarrow> error + FusionResult" where
  "fusionTranscribe env config =
     (let results = provider_results env config;
          successfulResults = filter success results
      in if int (length successfulResults) < minProvidersRequired config
         then Inl (Fusion_failed (length successfulResults) (minProvidersRequired config))
         else
           case applyFusionStrategy successfulResults (strategy config) config of
             Inl e \<Rightarrow> Inl e
           | Inr text \<Rightarrow>
               Inr \<lparr>finalTranscript = text,
                    overall_confidence = calculateOverallConfidence successfulResults (strategy config),
                    strategy_used = strategy config,
                    results = results,
                    total_processingTime = total_elapsed env,
                    providersUsed = map provider successfulResults\<rparr>)"


section \<open>Application rules\<close>

record ActiveAppInfo =
  name :: string
  executable :: string
  title :: string
  lastUpdated :: int

text \<open>The fields of \<open>AppRule\<close> that rule matching reads; \<open>executable\<close> is optional.\<close>

record AppRule =
  id :: string
  appName :: string
  executable :: "string option"
  enabled :: bool
  priority :: int

text \<open>\<open>pattern.replace(/\*/g, '.*')\<close>\<close>

definition star_to_dotstar :: "string \<Rightarrow> string" where
  "star_to_dotstar s = concat (map (\<lambda>c. if c = CHR ''*'' then ''.*'' else [c]) s)"

text \<open>
  The regular-expression engine is a parameter of the model: \<open>RegExp src flags\<close> stands for
  \<open>new RegExp(src, flags)\<close>, which is \<open>None\<close> where the constructor throws a \<open>SyntaxError\<close>
  and otherwise the predicate \<open>pattern.test\<close> of the expression built.  The program builds
  every expression with the flags \<open>'i'\<close>.

  \<open>rule_matches\<close> is the body of the loop of \<open>findMatchingRule\<close> up to the value of \<open>matches\<close>.
  An empty pattern is falsy and is skipped, as a missing one is.
\<close>

type_synonym regexp_engine = "string \<Rightarrow> string \<Rightarrow> (string \<Rightarrow> bool) option"

definition test_pattern :: "regexp_engine \<Rightarrow> string \<Rightarrow> string \<Rightarrow> error + bool" where
  "test_pattern RegExp src subject =
     (case RegExp (star_to_dotstar src) ''i'' of
        None \<Rightarrow> Inl (Invalid_regular_expression (star_to_dotstar src))
      | Some pattern \<Rightarrow> Inr (pattern subject))"

definition rule_matches :: "regexp_engine \<Rightarrow> ActiveAppInfo \<Rightarrow> AppRule \<Rightarrow> error + bool" where
  "rule_matches RegExp appInfo rule =
     (case (if appName rule \<noteq> [] then test_pattern RegExp (appName rule) (name appInfo)
            else Inr False) of
        Inl e \<Rightarrow> Inl e
      | Inr matches \<Rightarrow>
          (case AppRule.executable rule of
             None \<Rightarrow> Inr matches
           | Some exe \<Rightarrow>
               if exe \<noteq> [] \<and> \<not> matches
               then test_pattern RegExp exe (ActiveAppInfo.executable appInfo)
               else Inr matches))"

fun collect_matching ::
  "regexp_engine \<Rightarrow> ActiveAppInfo \<Rightarrow> AppRule list \<Rightarrow> AppRule list \<Rightarrow> error + AppRule list" where
  "collect_matching RegExp appInfo [] matchingRules = Inr matchingRules"
| "collect_matching RegExp appInfo (rule # rest) matchingRules =
     (case rule_matches RegExp appInfo rule of
        Inl e \<Rightarrow> Inl e
      | Inr matches \<Rightarrow>
          collect_matching RegExp appInfo rest
            (if matches then matchingRules @ [rule] else matchingRules))"

text \<open>
  \<open>findMatchingRule\<close>.  \<open>Array.prototype.sort\<close> is stable and the comparator
  \<open>b.priority - a.priority\<close> orders by descending priority: \<^const>\<open>sort_key\<close> on the negated
  priority, which is a stable insertion sort.
\<close>

definition findMatchingRule ::
  "regexp_engine \<Rightarrow> ActiveAppInfo \<Rightarrow> AppRule list \<Rightarrow> error + AppRule option" where
  "findMatchingRule RegExp appInfo rules =
     (if length rules = 0 then Inr None
      else
        let enabledRules = filter enabled rules
        in case collect_matching RegExp appInfo enabledRules [] of
             Inl e \<Rightarrow> Inl e
           | Inr matchingRules \<Rightarrow>
               if length matchingRules > 0
               then Inr (Some (sort_key (\<lambda>r. - priority r) matchingRules ! 0))
               else Inr None)"

text \<open>
  The engine on a fragment of the syntax: a source made of literal characters, the dot, and
  the quantifiers \<open>*\<close>, \<open>+\<close> and \<open>?\<close>, each after a character or a dot and each optionally
  followed by the \<open>?\<close> that makes it lazy.  A quantifier at the start, a quantifier other
  than \<open>?\<close> right after a quantifier, and any quantifier after a lazy one have nothing to
  repeat: the constructor throws the \<open>SyntaxError\<close> \<open>Nothing to repeat\<close>, as on \<open>C++\<close>.  The
  other characters with a meaning of their own, the backslash and \<open>^ $ ( ) [ ] { } |\<close>, are
  outside the fragment (\<open>in_fragment\<close>): \<open>parse_regexp\<close> gives \<open>None\<close> on them, which is
  what the constructor does on \<open>(\<close> alone but not on every source that holds one, so the
  engine is meant for the sources of the fragment only.
\<close>

datatype atom = Literal char | Any_char

datatype quantifier = Once | Star | Plus | Optional

datatype scan_state = At_start | After_atom | After_quantifier | After_lazy

definition is_quantifier :: "char \<Rightarrow> bool" where
  "is_quantifier c = (c \<in> {CHR ''*'', CHR ''+'', CHR ''?''})"

definition is_other_syntax :: "char \<Rightarrow> bool" where
  "is_other_syntax c =
     (c \<in> {CHR 0x5C, CHR 0x5E, CHR 0x24, CHR 0x28, CHR 0x29, CHR 0x5B, CHR 0x5D, CHR 0x7B,
            CHR 0x7D, CHR 0x7C})"

definition in_fragment :: "string \<Rightarrow> bool" where
  "in_fragment src = list_all (\<lambda>c. \<not> is_other_syntax c) src"

definition quantifier_of :: "char \<Rightarrow> quantifier" where
  "quantifier_of c = (if c = CHR ''*'' then Star else if c = CHR ''+'' then Plus else Optional)"

fun parse_regexp ::
  "(atom \<times> quantifier) list \<Rightarrow> scan_state \<Rightarrow> string \<Rightarrow> (atom \<times> quantifier) list option" where
  "parse_regexp acc st [] = Some (rev acc)"
| "parse_regexp acc st (c # cs) =
     (if is_other_syntax c then None
      else if is_quantifier c then
        (case (st, acc) of
           (After_atom, (a, q) # acc') \<Rightarrow>
             parse_regexp ((a, quantifier_of c) # acc') After_quantifier cs
         | (After_quantifier, _) \<Rightarrow>
             if c = CHR ''?'' then parse_regexp acc After_lazy cs else None
         | _ \<Rightarrow> None)
      else
        parse_regexp ((if c = CHR ''.'' then Any_char else Literal c, Once) # acc) After_atom cs)"

text \<open>
  The dot accepts every character but the line terminators.  Under the flag \<open>i\<close> two
  characters are the same when their canonical forms are; on Latin-1 those are the pairs
  that \<open>toLowerCase\<close> identifies.
\<close>

fun atom_matches :: "bool \<Rightarrow> atom \<Rightarrow> char \<Rightarrow> bool" where
  "atom_matches ignoreCase Any_char c = (c \<noteq> CHR 0x0A \<and> c \<noteq> CHR 0x0D)"
| "atom_matches ignoreCase (Literal x) c =
     (if ignoreCase then lower_char x = lower_char c else x = c)"

text \<open>\<open>matches_at ic r s\<close>: the expression \<open>r\<close> matches a prefix of \<open>s\<close>.\<close>

fun matches_at :: "bool \<Rightarrow> (atom \<times> quantifier) list \<Rightarrow> string \<Rightarrow> bool" where
  "matches_at ic [] s = True"
| "matches_at ic ((a, Once) # r) [] = False"
| "matches_at ic ((a, Once) # r) (c # cs) = (atom_matches ic a c \<and> matches_at ic r cs)"
| "matches_at ic ((a, Optional) # r) [] = matches_at ic r []"
| "matches_at ic ((a, Optional) # r) (c # cs) =
     (matches_at ic r (c # cs) \<or> (atom_matches ic a c \<and> matches_at ic r cs))"
| "matches_at ic ((a, Star) # r) [] = matches_at ic r []"
| "matches_at ic ((a, Star) # r) (c # cs) =
     (matches_at ic r (c # cs) \<or> (atom_matches ic a c \<and> matches_at ic ((a, Star) # r) cs))"
| "matches_at ic ((a, Plus) # r) [] = False"
| "matches_at ic ((a, Plus) # r) (c # cs) =
     (atom_matches ic a c \<and> matches_at ic ((a, Star) # r) cs)"

text \<open>\<open>pattern.test(s)\<close> searches: the expression matches at some position of \<open>s\<close>.\<close>

definition regexp_test :: "bool \<Rightarrow> (atom \<times> quantifier) list \<Rightarrow> string \<Rightarrow> bool" where
  "regexp_test ic r s = list_ex (\<lambda>i. matches_at ic r (drop i s)) [0..<Suc (length s)]"

definition RegExp_fragment :: regexp_engine where
  "RegExp_fragment src flags =
     map_option (regexp_test (CHR ''i'' \<in> set flags)) (parse_regexp [] At_start src)"


text \<open>
  The notions of the specification.  \<open>glob_to_regex\<close> turns a glob into the source of a
  regular expression: each \<open>*\<close> becomes \<open>.*\<close> and every other character stays.  A rule's
  app-name pattern matches when the pattern is not empty and the case-insensitive
  expression built from it accepts the name of the application; likewise for the optional
  executable pattern and the executable.  A rule is \<open>matching\<close> when it is enabled and its
  name pattern matches or, the name pattern not matching, its executable pattern does.
  \<open>patterns_valid\<close> says that the engine accepts the expressions built from the patterns of
  a rule, and \<open>top_priority\<close> that no matching rule of the list has a higher priority.
\<close>

fun glob_to_regex :: "string \<Rightarrow> string" where
  "glob_to_regex [] = []"
| "glob_to_regex (c # cs) =
     (if c = CHR ''*'' then CHR ''.'' # CHR ''*'' # glob_to_regex cs else c # glob_to_regex cs)"

definition name_matches :: "regexp_engine \<Rightarrow> ActiveAppInfo \<Rightarrow> AppRule \<Rightarrow> bool" where
  "name_matches RegExp appInfo rule =
     (appName rule \<noteq> [] \<and>
      (case RegExp (glob_to_regex (appName rule)) ''i'' of
         None \<Rightarrow> False | Some pattern \<Rightarrow> pattern (name appInfo)))"

definition executable_matches :: "regexp_engine \<Rightarrow> ActiveAppInfo \<Rightarrow> AppRule \<Rightarrow> bool" where
  "executable_matches RegExp appInfo rule =
     (case AppRule.executable rule of
        None \<Rightarrow> False
      | Some exe \<Rightarrow>
          exe \<noteq> [] \<and>
          (case RegExp (glob_to_regex exe) ''i'' of
             None \<Rightarrow> False | Some pattern \<Rightarrow> pattern (ActiveAppInfo.executable appInfo)))"

definition matching :: "regexp_engine \<Rightarrow> ActiveAppInfo \<Rightarrow> AppRule \<Rightarrow> bool" where
  "matching RegExp appInfo rule =
     (AppRule.enabled rule \<and>
      (name_matches RegExp appInfo rule
       \<or> (\<not> name_matches RegExp appInfo rule \<and> executable_matches RegExp appInfo rule)))"

definition patterns_valid :: "regexp_engine \<Rightarrow> AppRule \<Rightarrow> bool" where
  "patterns_valid RegExp rule =
     ((appName rule = [] \<or> RegExp (glob_to_regex (appName rule)) ''i'' \<noteq> None) \<and>
      (case AppRule.executable rule of
         None \<Rightarrow> True
       | Some exe \<Rightarrow> exe = [] \<or> RegExp (glob_to_regex exe) ''i'' \<noteq> None))"

definition top_priority :: "regexp_engine \<Rightarrow> ActiveAppInfo \<Rightarrow> AppRule list \<Rightarrow> AppRule \<Rightarrow> bool" where
  "top_priority RegExp appInfo rules rule =
     list_all (\<lambda>r. matching RegExp appInfo r \<longrightarrow> priority r \<le> priority rule) rules"


section \<open>Voice activation\<close>

record VoiceActivationConfig =
  enabled :: bool
  sensitivity :: int
  silenceThreshold :: int
  noiseGate :: int
  minRecordingDuration :: int
  maxRecordingDuration :: int

text \<open>\<open>x || d\<close> on numbers: 0 is falsy.\<close>

definition or_default :: "int \<Rightarrow> int \<Rightarrow> int" where
  "or_default x d = (if x = 0 then d else x)"

text \<open>\<open>state.voiceActivation\<close> of \<open>state.ts\<close>; \<open>silenceTimer\<close> holds the handle of a timer.\<close>

record VoiceActivationState =
  isEnabled :: bool
  isListening :: bool
  audioLevel :: real
  silenceTimer :: "nat option"
  recordingStartTime :: int

text \<open>The messages sent to the renderer processes.\<close>

datatype message =
  Panel_startRecording | Panel_stopRecording | Panel_finishRecording
| Voice_window_start | Voice_window_stop

text \<open>
  The main process as the voice activation manager sees it: \<open>state.isRecording\<close> and
  \<open>state.voiceActivation\<close>, the two fields of the manager, the panel window (\<open>None\<close> when
  \<open>WINDOWS.get("panel")\<close> is undefined, otherwise whether it is visible), the timers set by
  \<open>setTimeout\<close> and not yet fired or cleared, each with its delay and the \<open>minDuration\<close> its
  callback captured, the next fresh handle, and the messages sent so far.
\<close>

record Main =
  isRecording :: bool
  voiceActivation :: VoiceActivationState
  isInitialized :: bool
  voiceActivationWindow :: bool
  panel :: "bool option"
  timers :: "nat \<Rightarrow> (int \<times> int) option"
  next_handle :: nat
  sent :: "message list"

definition send :: "message \<Rightarrow> Main \<Rightarrow> Main" where
  "send m w = w\<lparr>sent := sent w @ [m]\<rparr>"

text \<open>
  \<open>if (silenceTimer) { clearTimeout(silenceTimer); silenceTimer = null }\<close>, the block that
  \<open>onVoiceDetected\<close>, \<open>stopRecording\<close> and \<open>stop\<close> share.
\<close>

definition clear_silence_timer :: "Main \<Rightarrow> Main" where
  "clear_silence_timer w =
     (case silenceTimer (voiceActivation w) of
        None \<Rightarrow> w
      | Some h \<Rightarrow>
          w\<lparr>timers := (timers w)(h := None),
            voiceActivation := (voiceActivation w)\<lparr>silenceTimer := None\<rparr>\<rparr>)"

definition showPanelWindowAndStartRecording :: "Main \<Rightarrow> Main" where
  "showPanelWindowAndStartRecording w =
     (case panel w of
        None \<Rightarrow> w
      | Some visible \<Rightarrow> send Panel_startRecording (w\<lparr>panel := Some True\<rparr>))"

text \<open>
  \<open>stopRecordingAndHidePanelWindow\<close> sends \<open>stopRecording\<close> and hides the panel when it is
  visible; hiding runs the \<open>hide\<close> handler that \<open>createPanelWindow\<close> installs, which sends
  \<open>stopRecording\<close> once more.
\<close>

definition stopRecordingAndHidePanelWindow :: "Main \<Rightarrow> Main" where
  "stopRecordingAndHidePanelWindow w =
     (case panel w of
        None \<Rightarrow> w
      | Some visible \<Rightarrow>
          if visible
          then send Panel_stopRecording ((send Panel_stopRecording w)\<lparr>panel := Some False\<rparr>)
          else send Panel_stopRecording w)"

text \<open>The \<open>recordEvent\<close> procedure, by which the panel reports that capture began or ended.\<close>

definition recordEvent :: "bool \<Rightarrow> Main \<Rightarrow> Main" where
  "recordEvent started w = w\<lparr>isRecording := started\<rparr>"

definition listening_enabled :: "VoiceActivationConfig option \<Rightarrow> Main \<Rightarrow> bool" where
  "listening_enabled voiceConfig w =
     ((case voiceConfig of None \<Rightarrow> False | Some c \<Rightarrow> VoiceActivationConfig.enabled c)
      \<and> isListening (voiceActivation w))"

definition onVoiceDetected :: "VoiceActivationConfig option \<Rightarrow> int \<Rightarrow> Main \<Rightarrow> Main" where
  "onVoiceDetected voiceConfig now w =
     (if \<not> listening_enabled voiceConfig w then w
      else
        let w1 = clear_silence_timer w
        in if \<not> isRecording w1
           then showPanelWindowAndStartRecording
                  (w1\<lparr>voiceActivation := (voiceActivation w1)\<lparr>recordingStartTime := now\<rparr>\<rparr>)
           else w1)"

definition stopRecording :: "Main \<Rightarrow> Main" where
  "stopRecording w =
     (let w1 = clear_silence_timer w
      in case panel w1 of None \<Rightarrow> w1 | Some visible \<Rightarrow> send Panel_finishRecording w1)"

text \<open>The callback given to \<open>setTimeout\<close> in \<open>onSilenceDetected\<close>, run at time \<open>now\<close>.\<close>

definition silence_callback :: "int \<Rightarrow> int \<Rightarrow> Main \<Rightarrow> Main" where
  "silence_callback minDuration now w =
     (let recordingDuration = now - recordingStartTime (voiceActivation w)
      in if recordingDuration \<ge> minDuration then stopRecording w else w)"

definition onSilenceDetected :: "VoiceActivationConfig option \<Rightarrow> Main \<Rightarrow> Main" where
  "onSilenceDetected voiceConfig w =
     (if \<not> listening_enabled voiceConfig w then w
      else
        case voiceConfig of
          None \<Rightarrow> w
        | Some c \<Rightarrow>
            let silenceThreshold = or_default (silenceThreshold c) 2000;
                minDuration = or_default (minRecordingDuration c) 500
            in if isRecording w \<and> silenceTimer (voiceActivation w) = None
               then w\<lparr>timers := (timers w)(next_handle w \<mapsto> (silenceThreshold, minDuration)),
                      next_handle := Suc (next_handle w),
                      voiceActivation :=
                        (voiceActivation w)\<lparr>silenceTimer := Some (next_handle w)\<rparr>\<rparr>
               else w)"

text \<open>
  The event loop runs the callback of the pending timer \<open>h\<close> at time \<open>now\<close>; a handle that was
  cleared or has fired has no callback left.
\<close>

definition timer_fires :: "nat \<Rightarrow> int \<Rightarrow> Main \<Rightarrow> Main" where
  "timer_fires h now w =
     (case timers w h of
        None \<Rightarrow> w
      | Some (delay, minDuration) \<Rightarrow>
          silence_callback minDuration now (w\<lparr>timers := (timers w)(h := None)\<rparr>))"

definition onAudioLevelUpdate ::
  "VoiceActivationConfig option \<Rightarrow> int \<Rightarrow> real \<Rightarrow> Main \<Rightarrow> Main" where
  "onAudioLevelUpdate voiceConfig now level w =
     (let w1 = w\<lparr>voiceActivation := (voiceActivation w)\<lparr>audioLevel := level\<rparr>\<rparr>
      in if isRecording w1
         then
           let maxDuration =
                 (case voiceConfig of
                    None \<Rightarrow> 30000
                  | Some c \<Rightarrow> or_default (maxRecordingDuration c) 30000);
               recordingDuration = now - recordingStartTime (voiceActivation w1)
           in if recordingDuration \<ge> maxDuration then stopRecording w1 else w1
         else w1)"

text \<open>\<open>VoiceActivationManager.start\<close> and \<open>VoiceActivationManager.stop\<close>\<close>

definition VoiceActivationManager_start :: "Main \<Rightarrow> Main" where
  "VoiceActivationManager_start w =
     (if \<not> isInitialized w then w
      else
        let w1 = w\<lparr>voiceActivation := (voiceActivation w)\<lparr>isListening := True\<rparr>\<rparr>
        in if voiceActivationWindow w1 then send Voice_window_start w1 else w1)"

definition VoiceActivationManager_stop :: "Main \<Rightarrow> Main" where
  "VoiceActivationManager_stop w =
     (let w1 = w\<lparr>voiceActivation := (voiceActivation w)\<lparr>isListening := False\<rparr>\<rparr>;
          w2 = clear_silence_timer w1;
          w3 = (if isRecording w2 then stopRecordingAndHidePanelWindow w2 else w2)
      in if voiceActivationWindow w3 then send Voice_window_stop w3 else w3)"

text \<open>The state of \<open>state.ts\<close> with a manager that \<open>initialize\<close> has set up, and a panel window.\<close>

definition initialized_Main :: Main where
  "initialized_Main =
     \<lparr>isRecording = False,
      voiceActivation =
        \<lparr>isEnabled = True, isListening = False, audioLevel = 0, silenceTimer = None,
         recordingStartTime = 0\<rparr>,
      isInitialized = True, voiceActivationWindow = True, panel = Some False,
      timers = Map.empty, next_handle = 0, sent = []\<rparr>"


section \<open>Streaming dictation\<close>

record StreamingDictationState =
  isActive :: bool
  isListening :: bool
  currentText :: string
  lastFinalText :: string
  confidence :: real
  audioLevel :: real
  language :: string
  startTime :: int
  wordsSpoken :: nat

text \<open>The commands sent to the recognition window, and the text handed to \<open>writeText\<close>.\<close>

datatype dictation_message =
  Recognition_start | Recognition_stop | Recognition_pause | Recognition_resume
| WriteText string

text \<open>
  The \<open>StreamingDictationManager\<close>: its three fields, whether accessibility is granted, and
  the messages sent so far.
\<close>

record Dictation =
  isInitialized :: bool
  recognitionWindow :: bool
  currentState :: StreamingDictationState
  accessibilityGranted :: bool
  posted :: "dictation_message list"

definition post :: "dictation_message \<Rightarrow> Dictation \<Rightarrow> Dictation" where
  "post m d = d\<lparr>posted := posted d @ [m]\<rparr>"

definition to_window :: "dictation_message \<Rightarrow> Dictation \<Rightarrow> Dictation" where
  "to_window m d = (if recognitionWindow d then post m d else d)"

definition insertText :: "string \<Rightarrow> Dictation \<Rightarrow> Dictation" where
  "insertText text d = (if \<not> accessibilityGranted d then d else post (WriteText text) d)"

definition onTextUpdate :: "string \<Rightarrow> bool \<Rightarrow> real \<Rightarrow> Dictation \<Rightarrow> Dictation" where
  "onTextUpdate text isFinal conf d =
     (let s = (currentState d)\<lparr>confidence := conf\<rparr>
      in if isFinal
         then
           let words = filter (\<lambda>w. length w > 0) (js_split_ws (trim text))
           in insertText text
                (d\<lparr>currentState :=
                     s\<lparr>lastFinalText := text, currentText := [],
                       wordsSpoken := wordsSpoken s + length words\<rparr>\<rparr>)
         else d\<lparr>currentState := s\<lparr>currentText := text\<rparr>\<rparr>)"

definition recognition_started :: "Dictation \<Rightarrow> Dictation" where
  "recognition_started d = d\<lparr>currentState := (currentState d)\<lparr>isListening := True\<rparr>\<rparr>"

definition recognition_ended :: "Dictation \<Rightarrow> Dictation" where
  "recognition_ended d = d\<lparr>currentState := (currentState d)\<lparr>isListening := False\<rparr>\<rparr>"

definition StreamingDictationManager_start :: "int \<Rightarrow> Dictation \<Rightarrow> Dictation" where
  "StreamingDictationManager_start now d =
     (if \<not> isInitialized d then d
      else to_window Recognition_start
             (d\<lparr>currentState :=
                  (currentState d)\<lparr>isActive := True, startTime := now, wordsSpoken := 0\<rparr>\<rparr>))"

definition StreamingDictationManager_stop :: "Dictation \<Rightarrow> Dictation" where
  "StreamingDictationManager_stop d =
     to_window Recognition_stop
       (d\<lparr>currentState := (currentState d)\<lparr>isActive := False, isListening := False\<rparr>\<rparr>)"

definition pause :: "Dictation \<Rightarrow> Dictation" where
  "pause d = to_window Recognition_pause d"

definition resume :: "Dictation \<Rightarrow> Dictation" where
  "resume d = to_window Recognition_resume d"

definition onVoiceCommand :: "string \<Rightarrow> Dictation \<Rightarrow> Dictation" where
  "onVoiceCommand command d =
     (let c = toLowerCase command
      in if c = ''new line'' then insertText [CHR 0x0A] d
         else if c = ''new paragraph'' then insertText [CHR 0x0A, CHR 0x0A] d
         else if c = ''stop dictation'' then StreamingDictationManager_stop d
         else if c = ''pause dictation'' then pause d
         else if c = ''resume dictation'' then resume d
         else d)"

text \<open>The manager as constructed, after \<open>initialize\<close> has succeeded.\<close>

definition initialized_Dictation :: Dictation where
  "initialized_Dictation =
     \<lparr>isInitialized = True, recognitionWindow = True,
      currentState =
        \<lparr>isActive = False, isListening = False, currentText = [], lastFinalText = [],
         confidence = 0, audioLevel = 0, language = ''en-US'', startTime = 0, wordsSpoken = 0\<rparr>,
      accessibilityGranted = True, posted = []\<rparr>"


section \<open>Example runs\<close>

text \<open>
  Three providers with minimum 2: \<open>openai\<close> answers, the endpoint of \<open>groq\<close> answers with an
  error, and \<open>gemini\<close> is not supported.
\<close>

definition two_of_three_fail_env :: ProviderEnv where
  "two_of_three_fail_env =
     \<lparr>groqApiKey = ''gsk'', openaiApiKey = ''sk'',
      fetch = (\<lambda>p. if p = openai then Http_ok ''hello world''
                    else Http_error ''Service Unavailable: down''),
      timer_first = (\<lambda>p. False), elapsed = (\<lambda>p. 1500), total_elapsed = 1600\<rparr>"

definition three_providers_config :: FusionConfig where
  "three_providers_config =
     \<lparr>FusionConfig.enabled = True, strategy = majority_vote, providers = [openai, groq, gemini],
      primaryProvider = Some openai, timeoutMs = 30000, minProvidersRequired = 2,
      confidenceThreshold = 0.7, enableParallel = True, providerWeights = Map.empty\<rparr>"

text \<open>Successful results with given transcripts, as \<open>processProvider\<close> builds them.\<close>

definition transcribed :: "STT_PROVIDER_ID \<Rightarrow> string \<Rightarrow> TranscriptionResult" where
  "transcribed p text =
     \<lparr>provider = p, transcript = text, TranscriptionResult.confidence = estimateConfidence text p 1500,
      processingTime = 1500, success = True, error = None\<rparr>"

definition hello_world_results :: "TranscriptionResult list" where
  "hello_world_results =
     [transcribed openai ''hello world'', transcribed groq ''hello word'',
      transcribed gemini ''help world'']"

text \<open>The same three transcripts with capitals, runs of blanks, a tab and a line feed.\<close>

definition untidy_results :: "TranscriptionResult list" where
  "untidy_results =
     [transcribed openai ''Hello  World'',
      transcribed groq (''  hello'' @ [CHR 0x09] @ ''WORD ''),
      transcribed gemini (''HELP   world'' @ [CHR 0x0A])]"

definition Hello_World_twice :: "TranscriptionResult list" where
  "Hello_World_twice = [transcribed openai ''Hello  World'', transcribed groq ''Hello  World'']"

text \<open>
  Chrome in the foreground and three rules that match it: by the name through a glob with
  \<open>*\<close>, with priority 5; by the name in another case, with priority 10; and by the
  executable only, with priority 10.  A fourth rule is named \<open>C++\<close>.
\<close>

definition chrome_app :: ActiveAppInfo where
  "chrome_app =
     \<lparr>name = ''Google Chrome'', ActiveAppInfo.executable = ''chrome.exe'',
      title = ''New Tab'', lastUpdated = 0\<rparr>"

definition rule_star_5 :: AppRule where
  "rule_star_5 =
     \<lparr>id = ''1'', appName = ''goo*chrome'', AppRule.executable = None, AppRule.enabled = True,
      priority = 5\<rparr>"

definition rule_google_10 :: AppRule where
  "rule_google_10 =
     \<lparr>id = ''2'', appName = ''GOOGLE'', AppRule.executable = None, AppRule.enabled = True,
      priority = 10\<rparr>"

definition rule_exe_10 :: AppRule where
  "rule_exe_10 =
     \<lparr>id = ''3'', appName = ''Firefox'', AppRule.executable = Some ''CHROME.EXE'',
      AppRule.enabled = True, priority = 10\<rparr>"

definition rule_cpp :: AppRule where
  "rule_cpp =
     \<lparr>id = ''4'', appName = ''C++'', AppRule.executable = None, AppRule.enabled = True,
      priority = 1\<rparr>"

text \<open>The default voice activation configuration of \<open>config.ts\<close>, switched on.\<close>

definition default_voiceConfig :: VoiceActivationConfig where
  "default_voiceConfig =
     \<lparr>VoiceActivationConfig.enabled = True, sensitivity = 30, silenceThreshold = 2000,
      noiseGate = 20, minRecordingDuration = 500, maxRecordingDuration = 30000\<rparr>"

text \<open>
  A run of the voice activation manager: it is started, voice is detected at time 1000, the
  panel reports that capture began, and silence is detected, which sets the silence timer.
\<close>

definition recording_in_silence :: Main where
  "recording_in_silence =
     onSilenceDetected (Some default_voiceConfig)
       (recordEvent True
          (onVoiceDetected (Some default_voiceConfig) 1000
             (VoiceActivationManager_start initialized_Main)))"

text \<open>The same manager before \<open>initialize\<close> has run.\<close>

definition uninitialized_Main :: Main where
  "uninitialized_Main = initialized_Main\<lparr>Main.isInitialized := False, voiceActivationWindow := False\<rparr>"

text \<open>
  A dictation session: started at time 1000, recognition begins, the final text
  \<open>good morning\<close> arrives and then the interim text \<open>hel\<close>.
\<close>

definition dictating_hel :: Dictation where
  "dictating_hel =
     onTextUpdate ''hel'' False 0.8
       (onTextUpdate ''good morning'' True 0.9
          (recognition_started (StreamingDictationManager_start 1000 initialized_Dictation)))"


section \<open>Properties of the confidence estimate\<close>

lemma js_split_ws_nonempty: "js_split_ws s \<noteq> []"
  by (subst js_split_ws.simps) (simp add: Let_def)

text \<open>
  C3.  For every transcript, provider id and processing time, the estimated confidence \<open>v\<close>
  satisfies \<open>0.1 \<le> v \<le> 0.99\<close>, whatever the length, latency and word-length adjustments.
\<close>

theorem estimateConfidence_clamped:
  "0.1 \<le> estimateConfidence t p ms \<and> estimateConfidence t p ms \<le> 0.99"
  unfolding estimateConfidence_def Let_def by simp

section \<open>Properties of the fusion call\<close>

lemma provider_results_length:
  "length (provider_results env config) = length (providers config)"
proof -
  have "foldl (\<lambda>results p. results @ [processProvider env p]) acc ps
          = acc @ map (processProvider env) ps" for acc ps
    by (induction ps arbitrary: acc) simp_all
  then show ?thesis
    by (simp add: provider_results_def processProvidersParallel_def processProvidersSequential_def)
qed

lemma two_of_three_fail_results:
  "map success (provider_results two_of_three_fail_env three_providers_config)
     = [True, False, False]"
  by (simp add: provider_results_def processProvidersParallel_def three_providers_config_def
      two_of_three_fail_env_def processProvider_def transcribeWithProvider_def
      thrown_before_fetch_def)

text \<open>
  C1.  \<open>provider_results env config\<close> holds one settled result per configured provider.  When
  fewer of them have \<open>success = true\<close> than \<open>minProvidersRequired\<close>, \<open>fusionTranscribe\<close> raises
  its error, carrying the two numbers, and produces no \<open>FusionResult\<close>.
\<close>

theorem fusionTranscribe_insufficient_providers:
  assumes "int (length (filter success (provider_results env config)))
             < minProvidersRequired config"
  shows "fusionTranscribe env config =
           Inl (Fusion_failed (length (filter success (provider_results env config)))
                  (minProvidersRequired config))"
  using assms by (simp add: fusionTranscribe_def Let_def)

text \<open>Three configured providers, two of which fail, and a required minimum of 2: the call raises.\<close>

theorem fusionTranscribe_insufficient_providers_witness:
  "map success (provider_results two_of_three_fail_env three_providers_config)
     = [True, False, False]
   \<and> minProvidersRequired three_providers_config = 2
   \<and> fusionTranscribe two_of_three_fail_env three_providers_config = Inl (Fusion_failed 1 2)"
proof -
  have n: "length (filter success
             (provider_results two_of_three_fail_env three_providers_config)) = 1"
    by (simp add: provider_results_def processProvidersParallel_def three_providers_config_def
        two_of_three_fail_env_def processProvider_def transcribeWithProvider_def
        thrown_before_fetch_def)
  have m: "minProvidersRequired three_providers_config = 2"
    by (simp add: three_providers_config_def)
  show ?thesis
    using fusionTranscribe_insufficient_providers
            [of two_of_three_fail_env three_providers_config]
      two_of_three_fail_results n m
    by simp
qed


section \<open>Properties of voice activation\<close>

lemma recording_in_silence_eq:
  "recording_in_silence =
     \<lparr>isRecording = True,
      voiceActivation =
        \<lparr>isEnabled = True, VoiceActivationState.isListening = True,
         VoiceActivationState.audioLevel = 0, silenceTimer = Some 0,
         recordingStartTime = 1000\<rparr>,
      Main.isInitialized = True, voiceActivationWindow = True, panel = Some True,
      timers = [0 \<mapsto> (2000, 500)], next_handle = Suc 0,
      sent = [Voice_window_start, Panel_startRecording]\<rparr>"
  by (simp add: recording_in_silence_def onSilenceDetected_def recordEvent_def
      onVoiceDetected_def VoiceActivationManager_start_def initialized_Main_def
      default_voiceConfig_def listening_enabled_def clear_silence_timer_def
      showPanelWindowAndStartRecording_def send_def or_default_def Let_def)

lemma onSilenceDetected_sets_timer:
  assumes "listening_enabled (Some c) w" "isRecording w"
    "silenceTimer (voiceActivation w) = None"
  shows "silenceTimer (voiceActivation (onSilenceDetected (Some c) w)) = Some (next_handle w)"
    and "timers (onSilenceDetected (Some c) w) (next_handle w)
           = Some (or_default (silenceThreshold c) 2000, or_default (minRecordingDuration c) 500)"
    and "recordingStartTime (voiceActivation (onSilenceDetected (Some c) w))
           = recordingStartTime (voiceActivation w)"
  using assms by (simp_all add: onSilenceDetected_def Let_def)

lemma stopRecording_sent:
  "sent (stopRecording w) = sent w @ (if panel w = None then [] else [Panel_finishRecording])"
  by (simp add: stopRecording_def clear_silence_timer_def send_def Let_def
      split: option.splits)

text \<open>
  C5.  A silence timer set by \<open>onSilenceDetected\<close> under the configuration \<open>c\<close> carries the
  minimum \<open>minRecordingDuration || 500\<close>.  When it fires at time \<open>now\<close>: a message is sent (the
  recording is stopped) only if \<open>now - recordingStartTime \<ge> minRecordingDuration\<close>; if the
  elapsed time is below the minimum, nothing happens but the timer being spent; and with
  the minimum reached and a panel window present, \<open>finishRecording\<close> is sent.
\<close>

theorem silence_timer_min_duration:
  assumes "timers w h = Some (delay, or_default (minRecordingDuration c) 500)"
  shows "(sent (timer_fires h now w) \<noteq> sent w \<longrightarrow>
            minRecordingDuration c \<le> now - recordingStartTime (voiceActivation w))
       \<and> (now - recordingStartTime (voiceActivation w) < minRecordingDuration c \<longrightarrow>
            timer_fires h now w = w\<lparr>timers := (timers w)(h := None)\<rparr>)
       \<and> (or_default (minRecordingDuration c) 500
              \<le> now - recordingStartTime (voiceActivation w)
            \<and> panel w \<noteq> None \<longrightarrow>
            sent (timer_fires h now w) = sent w @ [Panel_finishRecording])"
  using assms
  by (auto simp add: timer_fires_def silence_callback_def stopRecording_sent or_default_def
      Let_def split: if_splits)

text \<open>
  Recording began at 1000 with the minimum 500.  The timer firing at 1300 stops nothing; the
  timer firing at 3100 sends \<open>finishRecording\<close>.
\<close>

theorem silence_timer_min_duration_witness:
  "timers recording_in_silence 0
     = Some (2000, or_default (minRecordingDuration default_voiceConfig) 500)
   \<and> isRecording recording_in_silence
   \<and> (1300 - recordingStartTime (voiceActivation recording_in_silence)
        < minRecordingDuration default_voiceConfig)
   \<and> timer_fires 0 1300 recording_in_silence
        = recording_in_silence\<lparr>timers := (timers recording_in_silence)(0 := None)\<rparr>
   \<and> sent (timer_fires 0 3100 recording_in_silence)
        = sent recording_in_silence @ [Panel_finishRecording]"
proof -
  have t: "timers recording_in_silence 0
             = Some (2000, or_default (minRecordingDuration default_voiceConfig) 500)"
    by (simp add: recording_in_silence_eq default_voiceConfig_def or_default_def)
  have r: "isRecording recording_in_silence"
    by (simp add: recording_in_silence_eq)
  have a: "1300 - recordingStartTime (voiceActivation recording_in_silence)
             < minRecordingDuration default_voiceConfig"
    by (simp add: recording_in_silence_eq default_voiceConfig_def)
  have b: "or_default (minRecordingDuration default_voiceConfig) 500
             \<le> 3100 - recordingStartTime (voiceActivation recording_in_silence)
           \<and> panel recording_in_silence \<noteq> None"
    by (simp add: recording_in_silence_eq default_voiceConfig_def or_default_def)
  show ?thesis
    using silence_timer_min_duration [OF t, of 1300]
      silence_timer_min_duration [OF t, of 3100] t r a b
    by blast
qed

text \<open>
  C6, as stated, fails.  In the run \<open>recording_in_silence\<close> a silence timer is pending and
  \<open>recordingStartTime\<close> is 1000.  After \<open>start\<close> the handle, the pending timer and the start
  time are as before, and the timer still fires and sends \<open>finishRecording\<close>.
\<close>

theorem start_keeps_silence_timer_counterexample:
  "silenceTimer (voiceActivation (VoiceActivationManager_start recording_in_silence)) = Some 0
   \<and> timers (VoiceActivationManager_start recording_in_silence) 0 = Some (2000, 500)
   \<and> recordingStartTime (voiceActivation (VoiceActivationManager_start recording_in_silence))
        = 1000
   \<and> sent (timer_fires 0 3100 (VoiceActivationManager_start recording_in_silence))
        = sent (VoiceActivationManager_start recording_in_silence) @ [Panel_finishRecording]"
  by (simp add: recording_in_silence_eq VoiceActivationManager_start_def send_def Let_def
      timer_fires_def silence_callback_def stopRecording_def clear_silence_timer_def)

text \<open>
  C6, amended.  On an initialised manager \<open>start\<close> sets \<open>isListening\<close> and sends the start
  command to the voice activation window when there is one; the silence timer, the pending
  timers, \<open>recordingStartTime\<close> and everything else stay as they were.  On a manager that is
  not initialised \<open>start\<close> changes nothing.
\<close>

theorem start_sets_listening_only:
  "(Main.isInitialized w \<longrightarrow>
      VoiceActivationManager_start w =
        w\<lparr>voiceActivation := (voiceActivation w)\<lparr>VoiceActivationState.isListening := True\<rparr>,
          sent := sent w @ (if voiceActivationWindow w then [Voice_window_start] else [])\<rparr>)
   \<and> (\<not> Main.isInitialized w \<longrightarrow> VoiceActivationManager_start w = w)"
  by (simp add: VoiceActivationManager_start_def send_def Let_def)

theorem start_sets_listening_only_witness:
  "Main.isInitialized initialized_Main
   \<and> VoiceActivationState.isListening
        (voiceActivation (VoiceActivationManager_start initialized_Main))
   \<and> sent (VoiceActivationManager_start initialized_Main) = [Voice_window_start]
   \<and> \<not> Main.isInitialized uninitialized_Main
   \<and> VoiceActivationManager_start uninitialized_Main = uninitialized_Main"
  using start_sets_listening_only [of initialized_Main]
    start_sets_listening_only [of uninitialized_Main]
  by (simp add: initialized_Main_def uninitialized_Main_def)


section \<open>Properties of streaming dictation\<close>

lemma StreamingDictationManager_stop_fields:
  "Dictation.isInitialized (StreamingDictationManager_stop d) = Dictation.isInitialized d"
  "recognitionWindow (StreamingDictationManager_stop d) = recognitionWindow d"
  "currentState (StreamingDictationManager_stop d) =
     (currentState d)\<lparr>isActive := False, isListening := False\<rparr>"
  "accessibilityGranted (StreamingDictationManager_stop d) = accessibilityGranted d"
  "posted (StreamingDictationManager_stop d) =
     posted d @ (if recognitionWindow d then [Recognition_stop] else [])"
  by (simp_all add: StreamingDictationManager_stop_def to_window_def post_def)

lemma dictating_hel_state:
  "currentState dictating_hel =
     \<lparr>isActive = True, isListening = True, currentText = ''hel'',
      lastFinalText = ''good morning'', confidence = 0.8, audioLevel = 0,
      language = ''en-US'', startTime = 1000, wordsSpoken = 2\<rparr>"
proof -
  have "js_split_ws (trim ''good morning'') = [''good'', ''morning'']"
    by code_simp
  then show ?thesis
    by (simp add: dictating_hel_def onTextUpdate_def recognition_started_def
        StreamingDictationManager_start_def initialized_Dictation_def to_window_def post_def
        insertText_def Let_def)
qed

lemma dictating_hel_initialized: "Dictation.isInitialized dictating_hel"
  by (simp add: dictating_hel_def onTextUpdate_def recognition_started_def
      StreamingDictationManager_start_def initialized_Dictation_def to_window_def post_def
      insertText_def Let_def)

text \<open>
  C7, as stated, fails: in the session \<open>dictating_hel\<close> the interim text is \<open>hel\<close>, and it
  still is after \<open>stop\<close>.
\<close>

theorem dictation_stop_keeps_currentText_counterexample:
  "currentText (currentState dictating_hel) = ''hel''
   \<and> currentText (currentState (StreamingDictationManager_stop dictating_hel)) = ''hel''
   \<and> currentText (currentState (StreamingDictationManager_stop dictating_hel)) \<noteq> []"
  by (simp add: StreamingDictationManager_stop_fields dictating_hel_state)

text \<open>
  C7, amended.  \<open>stop\<close> sets \<open>isActive\<close> and \<open>isListening\<close> to false and leaves every other
  field of the session state as it was: \<open>currentText\<close>, \<open>wordsSpoken\<close> and \<open>lastFinalText\<close>
  are unchanged.  A later \<open>start\<close> on an initialised manager resets \<open>wordsSpoken\<close> to 0 and
  keeps \<open>lastFinalText\<close>.
\<close>

theorem dictation_stop_frame:
  "currentState (StreamingDictationManager_stop d) =
     (currentState d)\<lparr>isActive := False, isListening := False\<rparr>
   \<and> currentText (currentState (StreamingDictationManager_stop d)) = currentText (currentState d)
   \<and> wordsSpoken (currentState (StreamingDictationManager_stop d)) = wordsSpoken (currentState d)
   \<and> lastFinalText (currentState (StreamingDictationManager_stop d))
        = lastFinalText (currentState d)
   \<and> (Dictation.isInitialized d \<longrightarrow>
        wordsSpoken (currentState (StreamingDictationManager_start now d)) = 0
        \<and> lastFinalText (currentState (StreamingDictationManager_start now d))
            = lastFinalText (currentState d))"
  by (simp add: StreamingDictationManager_stop_fields StreamingDictationManager_start_def
      to_window_def post_def)

theorem dictation_stop_frame_witness:
  "Dictation.isInitialized (StreamingDictationManager_stop dictating_hel)
   \<and> wordsSpoken (currentState (StreamingDictationManager_stop dictating_hel)) = 2
   \<and> wordsSpoken (currentState
        (StreamingDictationManager_start 5000 (StreamingDictationManager_stop dictating_hel)))
       = 0"
proof -
  have i: "Dictation.isInitialized (StreamingDictationManager_stop dictating_hel)"
    by (simp add: StreamingDictationManager_stop_fields dictating_hel_initialized)
  show ?thesis
    using dictation_stop_frame [of "StreamingDictationManager_stop dictating_hel" 5000]
      dictation_stop_frame [of dictating_hel 0] i
    by (simp add: dictating_hel_state)
qed


section \<open>Stopping twice\<close>

lemma clear_silence_timer_fields:
  "isRecording (clear_silence_timer w) = isRecording w"
  "voiceActivation (clear_silence_timer w) = (voiceActivation w)\<lparr>silenceTimer := None\<rparr>"
  "Main.isInitialized (clear_silence_timer w) = Main.isInitialized w"
  "voiceActivationWindow (clear_silence_timer w) = voiceActivationWindow w"
  "panel (clear_silence_timer w) = panel w"
  "timers (clear_silence_timer w) =
     (case silenceTimer (voiceActivation w) of
        None \<Rightarrow> timers w
      | Some h \<Rightarrow> (timers w)(h := None))"
  "next_handle (clear_silence_timer w) = next_handle w"
  "sent (clear_silence_timer w) = sent w"
  by (simp_all add: clear_silence_timer_def split: option.split)

lemma stopRecordingAndHidePanelWindow_fields:
  "isRecording (stopRecordingAndHidePanelWindow w) = isRecording w"
  "voiceActivation (stopRecordingAndHidePanelWindow w) = voiceActivation w"
  "Main.isInitialized (stopRecordingAndHidePanelWindow w) = Main.isInitialized w"
  "voiceActivationWindow (stopRecordingAndHidePanelWindow w) = voiceActivationWindow w"
  "panel (stopRecordingAndHidePanelWindow w) =
     (case panel w of None \<Rightarrow> None | Some v \<Rightarrow> Some False)"
  "timers (stopRecordingAndHidePanelWindow w) = timers w"
  "next_handle (stopRecordingAndHidePanelWindow w) = next_handle w"
  "sent (stopRecordingAndHidePanelWindow w) =
     sent w
     @ (case panel w of
          None \<Rightarrow> []
        | Some v \<Rightarrow> if v then [Panel_stopRecording, Panel_stopRecording] else [Panel_stopRecording])"
  by (simp_all add: stopRecordingAndHidePanelWindow_def send_def split: option.split)

lemma VoiceActivationManager_stop_fields:
  "isRecording (VoiceActivationManager_stop w) = isRecording w"
  "voiceActivation (VoiceActivationManager_stop w) =
     (voiceActivation w)\<lparr>VoiceActivationState.isListening := False, silenceTimer := None\<rparr>"
  "Main.isInitialized (VoiceActivationManager_stop w) = Main.isInitialized w"
  "voiceActivationWindow (VoiceActivationManager_stop w) = voiceActivationWindow w"
  "panel (VoiceActivationManager_stop w) =
     (if isRecording w then (case panel w of None \<Rightarrow> None | Some v \<Rightarrow> Some False)
      else panel w)"
  "timers (VoiceActivationManager_stop w) =
     (case silenceTimer (voiceActivation w) of
        None \<Rightarrow> timers w
      | Some h \<Rightarrow> (timers w)(h := None))"
  "next_handle (VoiceActivationManager_stop w) = next_handle w"
  "sent (VoiceActivationManager_stop w) =
     sent w
     @ (if isRecording w
        then (case panel w of
                None \<Rightarrow> []
              | Some v \<Rightarrow>
                  if v then [Panel_stopRecording, Panel_stopRecording] else [Panel_stopRecording])
        else [])
     @ (if voiceActivationWindow w then [Voice_window_stop] else [])"
  by (simp_all add: VoiceActivationManager_stop_def Let_def send_def clear_silence_timer_fields
      stopRecordingAndHidePanelWindow_fields split: option.split)

text \<open>
  C8.  \<open>stop\<close> is a total function of the state: it raises nothing.  For the voice activation
  manager that is not listening, has no silence timer and no recording in progress, and for
  the dictation manager that is neither active nor listening, \<open>stop\<close> leaves the state as it
  is and only sends the stop command to its window.  For every state, a second \<open>stop\<close>
  yields the state of the first, the log of messages sent apart.
\<close>

theorem stop_idempotent:
  "(\<not> VoiceActivationState.isListening (voiceActivation w)
      \<and> silenceTimer (voiceActivation w) = None \<and> \<not> isRecording w \<longrightarrow>
      VoiceActivationManager_stop w =
        w\<lparr>sent := sent w @ (if voiceActivationWindow w then [Voice_window_stop] else [])\<rparr>)
   \<and> (VoiceActivationManager_stop (VoiceActivationManager_stop w))\<lparr>sent := []\<rparr>
       = (VoiceActivationManager_stop w)\<lparr>sent := []\<rparr>
   \<and> (\<not> isActive (currentState d) \<and> \<not> isListening (currentState d) \<longrightarrow>
      StreamingDictationManager_stop d =
        d\<lparr>posted := posted d @ (if recognitionWindow d then [Recognition_stop] else [])\<rparr>)
   \<and> (StreamingDictationManager_stop (StreamingDictationManager_stop d))\<lparr>posted := []\<rparr>
       = (StreamingDictationManager_stop d)\<lparr>posted := []\<rparr>"
proof (intro conjI impI)
  assume "\<not> VoiceActivationState.isListening (voiceActivation w)
      \<and> silenceTimer (voiceActivation w) = None \<and> \<not> isRecording w"
  then show "VoiceActivationManager_stop w =
        w\<lparr>sent := sent w @ (if voiceActivationWindow w then [Voice_window_stop] else [])\<rparr>"
    by (intro Main.equality) (simp_all add: VoiceActivationManager_stop_fields)
next
  show "(VoiceActivationManager_stop (VoiceActivationManager_stop w))\<lparr>sent := []\<rparr>
       = (VoiceActivationManager_stop w)\<lparr>sent := []\<rparr>"
    by (intro Main.equality)
      (simp_all add: VoiceActivationManager_stop_fields split: option.split)
next
  assume "\<not> isActive (currentState d) \<and> \<not> isListening (currentState d)"
  then show "StreamingDictationManager_stop d =
        d\<lparr>posted := posted d @ (if recognitionWindow d then [Recognition_stop] else [])\<rparr>"
    by (intro Dictation.equality) (simp_all add: StreamingDictationManager_stop_fields)
next
  show "(StreamingDictationManager_stop (StreamingDictationManager_stop d))\<lparr>posted := []\<rparr>
       = (StreamingDictationManager_stop d)\<lparr>posted := []\<rparr>"
    by (intro Dictation.equality) (simp_all add: StreamingDictationManager_stop_fields)
qed

text \<open>
  The two managers as initialised are inactive: \<open>stop\<close> changes neither state and sends one
  stop command.
\<close>

theorem stop_idempotent_witness:
  "\<not> VoiceActivationState.isListening (voiceActivation initialized_Main)
   \<and> silenceTimer (voiceActivation initialized_Main) = None
   \<and> \<not> isRecording initialized_Main
   \<and> VoiceActivationManager_stop initialized_Main
       = initialized_Main\<lparr>sent := [Voice_window_stop]\<rparr>
   \<and> \<not> isActive (currentState initialized_Dictation)
   \<and> \<not> isListening (currentState initialized_Dictation)
   \<and> StreamingDictationManager_stop initialized_Dictation
       = initialized_Dictation\<lparr>posted := [Recognition_stop]\<rparr>"
  using stop_idempotent [of initialized_Main initialized_Dictation]
  by (simp add: initialized_Main_def initialized_Dictation_def)


section \<open>Properties of rule matching\<close>

lemma star_to_dotstar_glob: "star_to_dotstar s = glob_to_regex s"
  by (induction s) (simp_all add: star_to_dotstar_def)

lemma rule_matches_valid:
  assumes "patterns_valid RegExp rule"
  shows "rule_matches RegExp appInfo rule =
           Inr (name_matches RegExp appInfo rule
                \<or> (\<not> name_matches RegExp appInfo rule \<and> executable_matches RegExp appInfo rule))"
  using assms
  by (auto simp add: patterns_valid_def rule_matches_def test_pattern_def name_matches_def
      executable_matches_def star_to_dotstar_glob split: option.splits)

lemma collect_matching_valid:
  assumes "\<forall>r \<in> set rs. patterns_valid RegExp r"
  shows "collect_matching RegExp appInfo rs acc =
           Inr (acc @ filter (\<lambda>r. name_matches RegExp appInfo r
                \<or> (\<not> name_matches RegExp appInfo r \<and> executable_matches RegExp appInfo r)) rs)"
  using assms
  by (induction rs arbitrary: acc) (simp_all add: rule_matches_valid)

lemma find_refine:
  assumes "find P xs = Some h" "Q h" "\<And>z. Q z \<Longrightarrow> P z"
  shows "find Q xs = Some h"
  using assms by (induction xs) (auto split: if_splits)

lemma find_filter: "find P (filter Q xs) = find (\<lambda>x. Q x \<and> P x) xs"
  by (induction xs) auto

lemma hd_insort_key:
  "hd (insort_key f x ys) = (if ys = [] \<or> f x \<le> f (hd ys) then x else hd ys)"
  by (cases ys) auto

lemma sort_key_Nil_iff: "sort_key f xs = [] \<longleftrightarrow> xs = []"
  by (metis length_sort list.size(3) length_0_conv)

lemma find_hd_sort_key:
  "xs \<noteq> [] \<Longrightarrow> find (\<lambda>x. \<forall>y \<in> set xs. f x \<le> f y) xs = Some (hd (sort_key f xs))"
proof (induction xs)
  case Nil
  then show ?case by simp
next
  case (Cons x xs)
  show ?case
  proof (cases "xs = []")
    case True
    then show ?thesis by simp
  next
    case False
    let ?h = "hd (sort_key f xs)"
    have ih: "find (\<lambda>x. \<forall>y \<in> set xs. f x \<le> f y) xs = Some ?h"
      using Cons.IH False by simp
    then have hmin: "\<forall>y \<in> set xs. f ?h \<le> f y" and hin: "?h \<in> set xs"
      by (auto simp add: find_Some_iff)
    have hd_eq: "hd (sort_key f (x # xs)) = (if f x \<le> f ?h then x else ?h)"
      using False by (simp add: hd_insort_key sort_key_Nil_iff)
    show ?thesis
    proof (cases "f x \<le> f ?h")
      case True
      then have "\<forall>y \<in> set (x # xs). f x \<le> f y" using hmin by auto
      then show ?thesis using True hd_eq by simp
    next
      case False
      define P where "P = (\<lambda>z. \<forall>y \<in> set (x # xs). f z \<le> f y)"
      have nx: "\<not> P x" unfolding P_def using False hin by auto
      have "find P xs = Some ?h"
        unfolding P_def by (rule find_refine [OF ih]) (use False hmin in auto)
      then have fp: "find P (x # xs) = Some ?h" using nx by simp
      have goal_eq: "hd (sort_key f (x # xs)) = ?h" using hd_eq False by simp
      show ?thesis unfolding goal_eq using fp unfolding P_def .
    qed
  qed
qed

lemma findMatchingRule_find:
  assumes "\<forall>r \<in> set rules. AppRule.enabled r \<longrightarrow> patterns_valid RegExp r"
  shows "findMatchingRule RegExp appInfo rules =
           Inr (find (\<lambda>r. matching RegExp appInfo r \<and> top_priority RegExp appInfo rules r) rules)"
proof -
  let ?m = "\<lambda>r. name_matches RegExp appInfo r
                \<or> (\<not> name_matches RegExp appInfo r \<and> executable_matches RegExp appInfo r)"
  let ?ms = "filter ?m (filter AppRule.enabled rules)"
  have ms: "?ms = filter (matching RegExp appInfo) rules"
    unfolding filter_filter by (rule filter_cong) (auto simp add: matching_def)
  have coll: "collect_matching RegExp appInfo (filter AppRule.enabled rules) [] = Inr ?ms"
    using assms by (simp add: collect_matching_valid)
  show ?thesis
  proof (cases "?ms = []")
    case True
    then have "\<forall>r \<in> set rules. \<not> matching RegExp appInfo r"
      unfolding ms by (simp add: filter_empty_conv)
    then have "find (\<lambda>r. matching RegExp appInfo r \<and> top_priority RegExp appInfo rules r) rules = None"
      by (auto simp add: find_None_iff)
    then show ?thesis using True coll
      by (simp add: findMatchingRule_def Let_def del: filter_filter)
  next
    case False
    then have ne: "rules \<noteq> []" by auto
    have "find (\<lambda>x. \<forall>y \<in> set ?ms. - priority x \<le> - priority y) ?ms
            = Some (hd (sort_key (\<lambda>r. - priority r) ?ms))"
      using False by (rule find_hd_sort_key)
    moreover have "sort_key (\<lambda>r. - priority r) ?ms ! 0 = hd (sort_key (\<lambda>r. - priority r) ?ms)"
      using False by (simp add: hd_conv_nth sort_key_Nil_iff del: filter_filter)
    moreover have "find (\<lambda>x. \<forall>y \<in> set ?ms. - priority x \<le> - priority y) ?ms
            = find (\<lambda>r. matching RegExp appInfo r \<and> top_priority RegExp appInfo rules r) rules"
      unfolding ms find_filter
      by (rule arg_cong [where f = "\<lambda>P. find P rules"]) (auto simp add: top_priority_def list_all_iff)
    ultimately show ?thesis using False coll ne
      by (simp add: findMatchingRule_def Let_def del: filter_filter)
  qed
qed


lemma example_rules_valid:
  "patterns_valid RegExp_fragment rule_star_5"
  "patterns_valid RegExp_fragment rule_google_10"
  "patterns_valid RegExp_fragment rule_exe_10"
  by code_simp+

lemma example_sources:
  "star_to_dotstar ''goo*chrome'' = ''goo.*chrome''"
  "in_fragment ''goo.*chrome''" "in_fragment ''GOOGLE''" "in_fragment ''Firefox''"
  "in_fragment ''CHROME.EXE''" "in_fragment ''C++''"
  by code_simp+

lemma example_rules_matching:
  "matching RegExp_fragment chrome_app rule_star_5"
  "matching RegExp_fragment chrome_app rule_google_10"
  "matching RegExp_fragment chrome_app rule_exe_10"
  "\<not> name_matches RegExp_fragment chrome_app rule_exe_10"
  by code_simp+

lemma example_rules_distinct:
  "rule_star_5 \<noteq> rule_google_10" "rule_google_10 \<noteq> rule_exe_10"
  "priority rule_star_5 = 5" "priority rule_google_10 = 10" "priority rule_exe_10 = 10"
  by (simp_all add: rule_star_5_def rule_google_10_def rule_exe_10_def)

lemma find_Some_D: "find P xs = Some x \<Longrightarrow> x \<in> set xs \<and> P x"
  by (induction xs) (auto split: if_splits)

lemma find_first_index:
  assumes "i < length xs" "P (xs ! i)" "\<forall>j < i. \<not> P (xs ! j)"
  shows "find P xs = Some (xs ! i)"
  unfolding find_Some_iff using assms by blast

lemma find_top_None:
  "find (\<lambda>r. matching RegExp appInfo r \<and> top_priority RegExp appInfo rules r) rules = None
     \<longleftrightarrow> \<not> (\<exists>r \<in> set rules. matching RegExp appInfo r)"
proof
  let ?P = "\<lambda>r. matching RegExp appInfo r \<and> top_priority RegExp appInfo rules r"
  assume n: "find ?P rules = None"
  show "\<not> (\<exists>r \<in> set rules. matching RegExp appInfo r)"
  proof
    assume "\<exists>r \<in> set rules. matching RegExp appInfo r"
    define ms where "ms = filter (matching RegExp appInfo) rules"
    define h where "h = hd (sort_key (\<lambda>r. - priority r) ms)"
    have ne: "ms \<noteq> []"
      using \<open>\<exists>r \<in> set rules. matching RegExp appInfo r\<close> by (simp add: ms_def filter_empty_conv)
    have "find (\<lambda>x. \<forall>y \<in> set ms. - priority x \<le> - priority y) ms = Some h"
      unfolding h_def using ne by (rule find_hd_sort_key)
    then have "h \<in> set ms \<and> (\<forall>y \<in> set ms. - priority h \<le> - priority y)"
      by (rule find_Some_D)
    then have hin: "h \<in> set rules" and hm: "matching RegExp appInfo h"
      and ht: "top_priority RegExp appInfo rules h"
      by (simp_all add: ms_def top_priority_def list_all_iff)
    from n have "\<not> (matching RegExp appInfo h \<and> top_priority RegExp appInfo rules h)"
      using hin unfolding find_None_iff by blast
    then show False using hm ht by simp
  qed
next
  assume "\<not> (\<exists>r \<in> set rules. matching RegExp appInfo r)"
  then show "find (\<lambda>r. matching RegExp appInfo r \<and> top_priority RegExp appInfo rules r) rules
               = None"
    unfolding find_None_iff by blast
qed








section \<open>Properties of the majority vote\<close>

lemma fold_max_ge: "a \<le> fold max xs (a::nat) \<and> (\<forall>x \<in> set xs. x \<le> fold max xs a)"
proof (induction xs arbitrary: a)
  case Nil
  then show ?case by simp
next
  case (Cons x xs)
  from Cons.IH [of "max x a"]
  have "x \<le> fold max xs (max x a)" "a \<le> fold max xs (max x a)"
    and "\<forall>y \<in> set xs. y \<le> fold max xs (max x a)"
    by (simp_all add: max.bounded_iff)
  then show ?case by simp
qed

lemma fold_max_mem: "fold max xs (a::nat) \<in> set (a # xs)"
  by (induction xs arbitrary: a) (auto simp add: max_def)

lemma foldl_pick:
  "foldl pick e es \<in> set (e # es) \<and> (\<forall>x \<in> set (e # es). snd x \<le> snd (foldl pick e es))"
proof (induction es arbitrary: e)
  case Nil
  then show ?case by simp
next
  case (Cons a es)
  have "snd e \<le> snd (pick e a)" "snd a \<le> snd (pick e a)" "pick e a \<in> {e, a}"
    by (auto simp add: pick_def)
  then show ?case using Cons.IH [of "pick e a"] by (auto intro: order_trans)
qed

lemma map_fst_tally:
  "map fst (tally k m) = (if k \<in> fst ` set m then map fst m else map fst m @ [k])"
proof (induction m)
  case Nil
  then show ?case by simp
next
  case (Cons p m)
  obtain k' n where p: "p = (k', n)" by (cases p)
  show ?case
  proof (cases "k' = k")
    case True
    then show ?thesis using p by simp
  next
    case False
    then have "k \<in> fst ` set (p # m) \<longleftrightarrow> k \<in> fst ` set m" using p by auto
    then show ?thesis using Cons.IH False p by simp
  qed
qed

lemma map_of_tally:
  "map_of (tally k m) = (map_of m)(k \<mapsto> (case map_of m k of None \<Rightarrow> 1 | Some n \<Rightarrow> n + 1))"
  by (induction m) (auto simp add: fun_eq_iff)

lemma tallied_tally: "tallied m xs \<Longrightarrow> tallied (tally k m) (xs @ [k])"
  unfolding tallied_def
  by (auto simp add: map_fst_tally map_of_tally split: option.splits
      dest: map_of_SomeD weak_map_of_SomeI)


lemma tallied_foldl:
  "tallied m xs \<Longrightarrow>
   tallied (foldl (\<lambda>m wordList. if i < length wordList then tally (wordList ! i) m else m) m wls)
     (xs @ column i wls)"
proof (induction wls arbitrary: m xs)
  case Nil
  then show ?case by (simp add: column_def)
next
  case (Cons wl wls)
  show ?case
  proof (cases "i < length wl")
    case True
    have "tallied (tally (wl ! i) m) (xs @ [wl ! i])"
      using Cons.prems by (rule tallied_tally)
    from Cons.IH [OF this] show ?thesis using True by (simp add: column_def)
  next
    case False
    from Cons.IH [OF Cons.prems] show ?thesis using False by (simp add: column_def)
  qed
qed

lemma wordCounts_tallied: "tallied (wordCounts i wls) (column i wls)"
proof -
  have "tallied [] []" by (simp add: tallied_def)
  from tallied_foldl [OF this, of i wls] show ?thesis by (simp add: wordCounts_def)
qed

lemma tallied_entry:
  assumes "tallied m xs"
  shows "(w, n) \<in> set m \<longleftrightarrow> w \<in> set xs \<and> n = count_list xs w"
proof -
  have d: "distinct (map fst m)" using assms by (simp add: tallied_def)
  have "(w, n) \<in> set m \<longleftrightarrow> map_of m w = Some n" using d by simp
  also have "\<dots> \<longleftrightarrow> w \<in> set xs \<and> n = count_list xs w"
    using assms by (auto simp add: tallied_def)
  finally show ?thesis .
qed

lemma column_nonempty:
  assumes "i < maxLength_of wls"
  shows "column i wls \<noteq> []"
proof -
  have "maxLength_of wls \<in> set (0 # map length wls)"
    unfolding maxLength_of_def by (rule fold_max_mem)
  then have "maxLength_of wls \<in> set (map length wls)" using assms by auto
  then obtain wl where "wl \<in> set wls" "i < length wl" using assms by auto
  then show ?thesis by (auto simp add: column_def filter_empty_conv)
qed

lemma maxLength_of_bounds:
  "(\<forall>wl \<in> set wls. length wl \<le> maxLength_of wls)"
  using fold_max_ge [of 0 "map length wls"] by (simp add: maxLength_of_def)

lemma winner_at:
  assumes "i < maxLength_of wls"
  shows "\<exists>w. (case wordCounts i wls of [] \<Rightarrow> [] | e # es \<Rightarrow> [fst (foldl pick e es)]) = [w]
           \<and> w \<in> set (column i wls)
           \<and> (\<forall>v. votes i wls v \<le> votes i wls w)"
proof -
  have t: "tallied (wordCounts i wls) (column i wls)" by (rule wordCounts_tallied)
  from column_nonempty [OF assms] obtain x where x: "x \<in> set (column i wls)"
    by (cases "column i wls") auto
  then have "(x, count_list (column i wls) x) \<in> set (wordCounts i wls)"
    using tallied_entry [OF t] by simp
  then obtain e es where ees: "wordCounts i wls = e # es"
    by (cases "wordCounts i wls") auto
  define b where "b = foldl pick e es"
  have bin: "b \<in> set (wordCounts i wls)" and bmax: "\<forall>x \<in> set (wordCounts i wls). snd x \<le> snd b"
    using foldl_pick [of e es] by (simp_all add: b_def ees)
  have "(fst b, snd b) \<in> set (wordCounts i wls)" using bin by simp
  then have "fst b \<in> set (column i wls) \<and> snd b = count_list (column i wls) (fst b)"
    by (simp only: tallied_entry [OF t])
  then have bw: "fst b \<in> set (column i wls)" and bn: "snd b = count_list (column i wls) (fst b)"
    by simp_all
  have "votes i wls v \<le> votes i wls (fst b)" for v
  proof (cases "v \<in> set (column i wls)")
    case True
    then have "(v, count_list (column i wls) v) \<in> set (wordCounts i wls)"
      using tallied_entry [OF t] by simp
    then have "count_list (column i wls) v \<le> snd b" using bmax by force
    then show ?thesis using bn by (simp add: votes_def)
  next
    case False
    then show ?thesis by (simp add: votes_def)
  qed
  then show ?thesis using bw by (simp add: ees b_def)
qed

lemma concat_map_singletons:
  assumes "\<forall>i \<in> set is. f i = [g i]"
  shows "concat (map f is) = map g is"
  using assms by (induction "is") simp_all

lemma finalWords_of_winners:
  "length (finalWords_of wls) = maxLength_of wls
   \<and> (\<forall>i < maxLength_of wls.
         finalWords_of wls ! i \<in> set (column i wls)
         \<and> (\<forall>v. votes i wls v \<le> votes i wls (finalWords_of wls ! i)))"
proof -
  let ?f = "\<lambda>i. case wordCounts i wls of [] \<Rightarrow> [] | e # es \<Rightarrow> [fst (foldl pick e es)]"
  define g where "g = (\<lambda>i. hd (?f i))"
  have fg: "?f i = [g i] \<and> g i \<in> set (column i wls) \<and> (\<forall>v. votes i wls v \<le> votes i wls (g i))"
    if "i < maxLength_of wls" for i
    using winner_at [OF that] unfolding g_def by force
  have "\<forall>i \<in> set [0..<maxLength_of wls]. ?f i = [g i]" using fg by simp
  then have "finalWords_of wls = map g [0..<maxLength_of wls]"
    unfolding finalWords_of_def by (rule concat_map_singletons)
  then show ?thesis using fg by simp
qed


lemma maxLength_of_Max:
  assumes "wls \<noteq> []"
  shows "maxLength_of wls = Max (length ` set wls)"
proof -
  have "maxLength_of wls \<in> set (0 # map length wls)"
    unfolding maxLength_of_def by (rule fold_max_mem)
  moreover have b: "\<forall>wl \<in> set wls. length wl \<le> maxLength_of wls"
    by (rule maxLength_of_bounds)
  ultimately have "maxLength_of wls \<in> length ` set wls"
  proof (cases "maxLength_of wls = 0")
    case True
    from assms obtain wl where wl: "wl \<in> set wls" by (cases wls) auto
    then have "length wl = 0" using b True by auto
    then show ?thesis using wl True by (metis imageI)
  next
    case False
    then show ?thesis using \<open>maxLength_of wls \<in> set (0 # map length wls)\<close> by auto
  qed
  then show ?thesis using b by (intro Max_eqI [symmetric]) auto
qed

lemma js_split_ws_last:
  "dropWhile (\<lambda>c. \<not> is_ws c) s = [] \<Longrightarrow> js_split_ws s = [takeWhile (\<lambda>c. \<not> is_ws c) s]"
  by (simp add: js_split_ws.simps [of s] Let_def)

lemma js_split_ws_more:
  "dropWhile (\<lambda>c. \<not> is_ws c) s \<noteq> [] \<Longrightarrow>
   js_split_ws s =
     takeWhile (\<lambda>c. \<not> is_ws c) s
     # js_split_ws (dropWhile is_ws (dropWhile (\<lambda>c. \<not> is_ws c) s))"
  by (subst js_split_ws.simps [of s]) (auto simp add: Let_def)

lemma js_split_ws_pieces:
  "w \<in> set (js_split_ws s) \<Longrightarrow> set w \<subseteq> set s \<and> (\<forall>c \<in> set w. \<not> is_ws c)"
proof (induction s arbitrary: w rule: js_split_ws.induct)
  case (1 s)
  let ?w0 = "takeWhile (\<lambda>c. \<not> is_ws c) s"
  let ?r = "dropWhile (\<lambda>c. \<not> is_ws c) s"
  have w0: "set ?w0 \<subseteq> set s \<and> (\<forall>c \<in> set ?w0. \<not> is_ws c)"
    by (auto dest: set_takeWhileD)
  show ?case
  proof (cases "?r = []")
    case True
    then have "js_split_ws s = [?w0]" by (rule js_split_ws_last)
    then show ?thesis using "1.prems" w0 by simp
  next
    case False
    then have eq: "js_split_ws s = ?w0 # js_split_ws (dropWhile is_ws ?r)"
      by (rule js_split_ws_more)
    show ?thesis
    proof (cases "w = ?w0")
      case True
      then show ?thesis using w0 by simp
    next
      case False
      then have "w \<in> set (js_split_ws (dropWhile is_ws ?r))" using "1.prems" eq by simp
      from "1.IH" [OF refl refl \<open>?r \<noteq> []\<close> this]
      have sub: "set w \<subseteq> set (dropWhile is_ws ?r)" and nw: "\<forall>c \<in> set w. \<not> is_ws c"
        by simp_all
      have "set (dropWhile is_ws ?r) \<subseteq> set ?r" by (rule set_dropWhileD [THEN subsetI]) 
      moreover have "set ?r \<subseteq> set s" by (rule subsetI) (rule set_dropWhileD)
      ultimately show ?thesis using sub nw by blast
    qed
  qed
qed

lemma lower_char_idem: "lower_char (lower_char c) = lower_char c"
proof -
  have "(of_char c :: nat) < 256" by simp
  then show ?thesis
    by (auto simp add: lower_char_def Let_def)
qed

lemma lower_char_space: "lower_char (CHR '' '') = CHR '' ''"
  by (simp add: lower_char_def)

lemma toLowerCase_join_sp: "toLowerCase (join_sp ws) = join_sp (map toLowerCase ws)"
  by (induction ws rule: join_sp.induct) (simp_all add: toLowerCase_def lower_char_space)

lemma wordList_of_words:
  assumes "w \<in> set (wordList_of t)"
  shows "w \<noteq> [] \<and> (\<forall>c \<in> set w. \<not> is_ws c \<and> lower_char c = c)"
proof -
  from assms have ne: "w \<noteq> []" and "w \<in> set (js_split_ws (toLowerCase t))"
    by (simp_all add: wordList_of_def)
  then have "set w \<subseteq> set (toLowerCase t)" and nw: "\<forall>c \<in> set w. \<not> is_ws c"
    using js_split_ws_pieces by blast+
  then have "\<forall>c \<in> set w. lower_char c = c"
    by (auto simp add: toLowerCase_def lower_char_idem)
  then show ?thesis using ne nw by simp
qed

lemma column_member:
  "w \<in> set (column i wls) \<Longrightarrow> \<exists>wl \<in> set wls. w \<in> set wl"
  by (auto simp add: column_def intro: nth_mem)

lemma finalWords_of_words:
  assumes "w \<in> set (finalWords_of (wordLists_of rs))"
  shows "w \<noteq> [] \<and> (\<forall>c \<in> set w. \<not> is_ws c \<and> lower_char c = c)"
proof -
  let ?wls = "wordLists_of rs"
  from assms obtain i where i: "i < length (finalWords_of ?wls)" and w: "w = finalWords_of ?wls ! i"
    by (auto simp add: in_set_conv_nth)
  then have "w \<in> set (column i ?wls)" using finalWords_of_winners [of ?wls] by simp
  then obtain wl where "wl \<in> set ?wls" "w \<in> set wl" using column_member by blast
  then obtain r :: TranscriptionResult where "w \<in> set (wordList_of (transcript r))"
    by (auto simp add: wordLists_of_def)
  then show ?thesis by (rule wordList_of_words)
qed

lemma js_split_ws_Nil: "js_split_ws [] = [[]]"
  by (simp add: js_split_ws.simps [of "[]"])

lemma js_split_ws_ws:
  "is_ws c \<Longrightarrow> js_split_ws (c # cs) = [] # js_split_ws (dropWhile is_ws cs)"
  by (subst js_split_ws.simps [of "c # cs"]) (simp add: Let_def)

lemma js_split_ws_char:
  assumes "\<not> is_ws c" "js_split_ws cs = p # ps"
  shows "js_split_ws (c # cs) = (c # p) # ps"
proof (cases "dropWhile (\<lambda>c. \<not> is_ws c) cs = []")
  case True
  then have "js_split_ws cs = [takeWhile (\<lambda>c. \<not> is_ws c) cs]"
    by (simp add: js_split_ws.simps [of cs] Let_def)
  moreover have "js_split_ws (c # cs) = [c # takeWhile (\<lambda>c. \<not> is_ws c) cs]"
    using True assms(1) by (simp add: js_split_ws.simps [of "c # cs"] Let_def)
  ultimately show ?thesis using assms(2) by simp
next
  case False
  then have "js_split_ws cs = takeWhile (\<lambda>c. \<not> is_ws c) cs
      # js_split_ws (dropWhile is_ws (dropWhile (\<lambda>c. \<not> is_ws c) cs))"
    by (subst js_split_ws.simps [of cs]) (auto simp add: Let_def)
  moreover have "js_split_ws (c # cs) = (c # takeWhile (\<lambda>c. \<not> is_ws c) cs)
      # js_split_ws (dropWhile is_ws (dropWhile (\<lambda>c. \<not> is_ws c) cs))"
    using False assms(1) by (subst js_split_ws.simps [of "c # cs"]) (auto simp add: Let_def)
  ultimately show ?thesis using assms(2) by simp
qed

lemma js_split_ws_skip:
  "filter (\<lambda>w. w \<noteq> []) (js_split_ws (dropWhile is_ws cs)) = filter (\<lambda>w. w \<noteq> []) (js_split_ws cs)"
proof (cases cs)
  case Nil
  then show ?thesis by simp
next
  case (Cons c cs')
  then show ?thesis by (cases "is_ws c") (simp_all add: js_split_ws_ws)
qed

lemma scan_words_split:
  "js_split_ws s = p # ps \<Longrightarrow> scan_words cur s = filter (\<lambda>w. w \<noteq> []) ((cur @ p) # ps)"
proof (induction s arbitrary: cur p ps)
  case Nil
  then show ?case by (simp add: js_split_ws_Nil)
next
  case (Cons c cs)
  obtain p' ps' where s': "js_split_ws cs = p' # ps'"
    using js_split_ws_nonempty [of cs] by (cases "js_split_ws cs") auto
  show ?case
  proof (cases "is_ws c")
    case True
    then have "p = []" and ps: "ps = js_split_ws (dropWhile is_ws cs)"
      using Cons.prems by (simp_all add: js_split_ws_ws)
    have "scan_words [] cs = filter (\<lambda>w. w \<noteq> []) (js_split_ws cs)"
      using Cons.IH [OF s', of "[]"] s' by simp
    then show ?thesis using True \<open>p = []\<close> ps by (simp add: js_split_ws_skip)
  next
    case False
    then have "p = c # p'" "ps = ps'"
      using Cons.prems js_split_ws_char [OF False s'] by simp_all
    then show ?thesis using False Cons.IH [OF s', of "cur @ [c]"] by simp
  qed
qed

lemma wordList_of_lowercase_words: "wordList_of t = lowercase_words t"
proof -
  obtain p ps where s: "js_split_ws (toLowerCase t) = p # ps"
    using js_split_ws_nonempty [of "toLowerCase t"] by (cases "js_split_ws (toLowerCase t)") auto
  from scan_words_split [OF this, of "[]"] show ?thesis
    using s by (simp add: wordList_of_def lowercase_words_def)
qed

lemma wordLists_of_lowercase: "wordLists_of rs = lowercase_word_lists rs"
  by (simp add: wordLists_of_def lowercase_word_lists_def wordList_of_lowercase_words)

text \<open>
  The scanner undoes the join: the words of non-empty words without white space, joined by
  single spaces, are these words.
\<close>

lemma scan_words_word:
  "\<forall>c \<in> set w. \<not> is_ws c \<Longrightarrow> scan_words cur (w @ rest) = scan_words (cur @ w) rest"
  by (induction w arbitrary: cur) simp_all

lemma is_ws_space: "is_ws (CHR '' '')"
  by (simp add: is_ws_def)

lemma scan_words_join_sp:
  assumes "\<forall>w \<in> set ws. w \<noteq> [] \<and> (\<forall>c \<in> set w. \<not> is_ws c)"
  shows "scan_words [] (join_sp ws) = ws"
  using assms
proof (induction ws rule: join_sp.induct)
  case 1
  then show ?case by simp
next
  case (2 w)
  then have "scan_words [] (w @ []) = scan_words ([] @ w) []"
    by (intro scan_words_word) simp
  then show ?case using 2 by simp
next
  case (3 w v ws)
  then have "scan_words [] (w @ (CHR '' '' # join_sp (v # ws)))
               = scan_words ([] @ w) (CHR '' '' # join_sp (v # ws))"
    by (intro scan_words_word) simp
  then show ?case using 3 by (simp add: is_ws_space)
qed



text \<open>
  C9.  On a single result \<open>combineMajorityVote\<close> returns the transcript as it is.  On two or
  more results the output is a join with single spaces of words that are not empty, hold no
  white space and hold only characters that lower-casing leaves alone; so the output equals
  its own lower-casing.
\<close>

theorem combineMajorityVote_case:
  "combineMajorityVote [r] = transcript r
   \<and> (2 \<le> length rs \<longrightarrow>
        (\<exists>ws. combineMajorityVote rs = join_sp ws
           \<and> (\<forall>w \<in> set ws. w \<noteq> [] \<and> (\<forall>c \<in> set w. \<not> is_ws c \<and> lower_char c = c)))
        \<and> toLowerCase (combineMajorityVote rs) = combineMajorityVote rs)"
proof (intro conjI impI)
  show "combineMajorityVote [r] = transcript r" by (simp add: combineMajorityVote_def)
next
  let ?ws = "finalWords_of (wordLists_of rs)"
  assume "2 \<le> length rs"
  then have "rs \<noteq> []" "length rs \<noteq> Suc 0" by auto
  then have eq: "combineMajorityVote rs = join_sp ?ws"
    by (simp add: combineMajorityVote_def)
  have words: "\<forall>w \<in> set ?ws. w \<noteq> [] \<and> (\<forall>c \<in> set w. \<not> is_ws c \<and> lower_char c = c)"
    using finalWords_of_words by blast
  show "\<exists>ws. combineMajorityVote rs = join_sp ws
          \<and> (\<forall>w \<in> set ws. w \<noteq> [] \<and> (\<forall>c \<in> set w. \<not> is_ws c \<and> lower_char c = c))"
    using eq words by blast
  have "toLowerCase w = w" if "w \<in> set ?ws" for w
    unfolding toLowerCase_def using words that by (intro map_idI) blast
  then have "map toLowerCase ?ws = ?ws" by (intro map_idI)
  then show "toLowerCase (combineMajorityVote rs) = combineMajorityVote rs"
    using eq by (simp add: toLowerCase_join_sp)
qed

text \<open>
  The transcript \<open>Hello  World\<close>, with two spaces: alone it is returned verbatim, given
  twice it becomes \<open>hello world\<close>.
\<close>

theorem combineMajorityVote_case_witness:
  "combineMajorityVote [transcribed openai ''Hello  World''] = ''Hello  World''
   \<and> 2 \<le> length Hello_World_twice
   \<and> map transcript Hello_World_twice = [''Hello  World'', ''Hello  World'']
   \<and> combineMajorityVote Hello_World_twice = ''hello world''
   \<and> toLowerCase (combineMajorityVote Hello_World_twice) = combineMajorityVote Hello_World_twice"
proof -
  have l: "2 \<le> length Hello_World_twice" by (simp add: Hello_World_twice_def)
  have t: "map transcript Hello_World_twice = [''Hello  World'', ''Hello  World'']"
    by (simp add: Hello_World_twice_def transcribed_def)
  have e: "combineMajorityVote Hello_World_twice = ''hello world''" by code_simp
  have s: "transcript (transcribed openai ''Hello  World'') = ''Hello  World''"
    by (simp add: transcribed_def)
  show ?thesis
    using combineMajorityVote_case [of "transcribed openai ''Hello  World''" Hello_World_twice]
      l t e s
    by simp
qed

end
